theory Spec2Isabelle
  imports Main "HOL-Library.Word"
begin

unbundle bit_operations_syntax

section \<open>Machine types\<close>

text \<open>
  The controller runs on an 8-bit AVR: \<open>uint8_t\<close> is an 8-bit word whose arithmetic
  wraps. A C \<open>int\<close> holding a temperature in 16ths of a degree Celsius is modelled as
  a HOL \<open>int\<close>; \<open>x >> n\<close> on it is \<open>drop_bit n x\<close> (arithmetic shift, rounding
  towards minus infinity, as avr-gcc does), \<open>x << n\<close> is \<open>push_bit n x\<close> and
  \<open>x & 0xf\<close> is \<open>x AND 15\<close>. A cast \<open>(uint8_t) e\<close> of an int expression is
  \<open>word_of_int e\<close>, the promotion of a byte to int is \<open>uint\<close>. Signed overflow
  is undefined in C and does not occur on the values a temperature takes; the ints here
  are unbounded, so a statement about every int covers every 16-bit value.
\<close>

type_synonym u8 = "8 word"
type_synonym u16 = "16 word"

section \<open>Temperature codec\<close>

definition COMPRESSION_C16_FLOOR_VAL :: int where
  "COMPRESSION_C16_FLOOR_VAL = 0"

definition COMPRESSION_C16_LOW_THRESHOLD :: int where
  "COMPRESSION_C16_LOW_THRESHOLD = push_bit 4 16"

definition COMPRESSION_C16_LOW_THR_AFTER :: int where
  "COMPRESSION_C16_LOW_THR_AFTER = drop_bit 3 COMPRESSION_C16_LOW_THRESHOLD"

definition COMPRESSION_C16_HIGH_THRESHOLD :: int where
  "COMPRESSION_C16_HIGH_THRESHOLD = push_bit 4 24"

definition COMPRESSION_C16_HIGH_THR_AFTER :: int where
  "COMPRESSION_C16_HIGH_THR_AFTER =
     COMPRESSION_C16_LOW_THR_AFTER
       + drop_bit 1 (COMPRESSION_C16_HIGH_THRESHOLD - COMPRESSION_C16_LOW_THRESHOLD)"

definition COMPRESSION_C16_CEIL_VAL :: int where
  "COMPRESSION_C16_CEIL_VAL = push_bit 4 100"

definition COMPRESSION_C16_CEIL_VAL_AFTER :: int where
  "COMPRESSION_C16_CEIL_VAL_AFTER =
     COMPRESSION_C16_HIGH_THR_AFTER
       + drop_bit 3 (COMPRESSION_C16_CEIL_VAL - COMPRESSION_C16_HIGH_THRESHOLD)"

text \<open>
  Modelled from the spec: \<open>STATS_UNSET_INT\<close> is declared outside Control.cpp. The spec
  gives the unset marker of a stats byte as 0xFF, and Control.cpp compares stats bytes
  against it and documents that "a value of 0xff (255) means unset".
\<close>

definition STATS_UNSET_INT :: int where
  "STATS_UNSET_INT = 255"

definition compressTempC16 :: "int \<Rightarrow> u8" where
  "compressTempC16 tempC16 =
     (if tempC16 \<le> 0 then 0
      else if tempC16 < COMPRESSION_C16_LOW_THRESHOLD then word_of_int (drop_bit 3 tempC16)
      else if tempC16 < COMPRESSION_C16_HIGH_THRESHOLD
        then word_of_int (drop_bit 1 (tempC16 - COMPRESSION_C16_LOW_THRESHOLD)
                            + COMPRESSION_C16_LOW_THR_AFTER)
      else if tempC16 < COMPRESSION_C16_CEIL_VAL
        then word_of_int (drop_bit 3 (tempC16 - COMPRESSION_C16_HIGH_THRESHOLD)
                            + COMPRESSION_C16_HIGH_THR_AFTER)
      else word_of_int COMPRESSION_C16_CEIL_VAL_AFTER)"

definition expandTempC16 :: "u8 \<Rightarrow> int" where
  "expandTempC16 cTemp =
     (if uint cTemp < COMPRESSION_C16_LOW_THR_AFTER then push_bit 3 (uint cTemp)
      else if uint cTemp < COMPRESSION_C16_HIGH_THR_AFTER
        then push_bit 1 (uint cTemp - COMPRESSION_C16_LOW_THR_AFTER)
               + COMPRESSION_C16_LOW_THRESHOLD
      else if uint cTemp \<le> COMPRESSION_C16_CEIL_VAL_AFTER
        then push_bit 3 (uint cTemp - COMPRESSION_C16_HIGH_THR_AFTER)
               + COMPRESSION_C16_HIGH_THRESHOLD
      else STATS_UNSET_INT)"

section \<open>Statistics smoothing\<close>

definition STATS_SMOOTH_SHIFT :: nat where
  "STATS_SMOOTH_SHIFT = 3"

text \<open>
  \<open>randRNG8()\<close> is an external pseudo-random byte source; the byte it returns is the
  third argument. All the arithmetic of the source is in 16 bits.
\<close>

definition smoothStatsValue :: "u8 \<Rightarrow> u8 \<Rightarrow> u8 \<Rightarrow> u8" where
  "smoothStatsValue oldSmoothed newValue rnd =
     (if oldSmoothed = newValue then oldSmoothed
      else
        let stocAdd = rnd AND (push_bit STATS_SMOOTH_SHIFT 1 - 1) in
        ucast (drop_bit STATS_SMOOTH_SHIFT
                 (push_bit STATS_SMOOTH_SHIFT (ucast oldSmoothed :: u16)
                    - ucast oldSmoothed + ucast newValue + ucast stocAdd)))"

section \<open>Small helpers declared outside Control.cpp\<close>

text \<open>
  Modelled from the spec: \<open>fnmin\<close> and \<open>fnmax\<close> are helper templates declared outside
  Control.cpp. The spec reads every use of them as a cap from above or a floor from
  below ("capped at", "floored at"), that is as the minimum and the maximum of their two
  arguments.
\<close>

definition fnmin :: "'a::linorder \<Rightarrow> 'a \<Rightarrow> 'a" where
  "fnmin a b = (if b < a then b else a)"

definition fnmax :: "'a::linorder \<Rightarrow> 'a \<Rightarrow> 'a" where
  "fnmax a b = (if a < b then b else a)"

text \<open>
  The Arduino macro \<open>constrain(amt, low, high)\<close>:
  \<open>((amt) < (low) ? (low) : ((amt) > (high) ? (high) : (amt)))\<close>.
\<close>

definition constrain :: "'a::linorder \<Rightarrow> 'a \<Rightarrow> 'a \<Rightarrow> 'a" where
  "constrain amt low high = (if amt < low then low else if amt > high then high else amt)"

section \<open>Occupancy tracker\<close>




section \<open>Quartile queries over the hourly statistics\<close>

text \<open>
  The EEPROM is a map from addresses to bytes, read by \<open>eeprom_read_byte\<close>. The loop
  of \<open>inBottomQuartile\<close> runs \<open>hh\<close> from 23 down to 0 while \<open>sE\<close> walks up; the
  first argument of the loop function is the number of iterations still to run.
\<close>

type_synonym eeprom = "nat \<Rightarrow> u8"

fun inBottomQuartile_loop :: "nat \<Rightarrow> eeprom \<Rightarrow> nat \<Rightarrow> u8 \<Rightarrow> u8 \<Rightarrow> bool" where
  "inBottomQuartile_loop 0 ee sE sample valuesHigher = False"
| "inBottomQuartile_loop (Suc n) ee sE sample valuesHigher =
     (let v = ee sE in
      if STATS_UNSET_INT = uint v then False
      else if v > sample
        then (if valuesHigher + 1 \<ge> 18 then True
              else inBottomQuartile_loop n ee (sE + 1) sample (valuesHigher + 1))
      else inBottomQuartile_loop n ee (sE + 1) sample valuesHigher)"

definition inBottomQuartile :: "eeprom \<Rightarrow> nat \<Rightarrow> u8 \<Rightarrow> bool" where
  "inBottomQuartile ee sE sample = inBottomQuartile_loop 24 ee sE sample 0"

fun inTopQuartile_loop :: "nat \<Rightarrow> eeprom \<Rightarrow> nat \<Rightarrow> u8 \<Rightarrow> u8 \<Rightarrow> bool" where
  "inTopQuartile_loop 0 ee sE sample valuesLower = False"
| "inTopQuartile_loop (Suc n) ee sE sample valuesLower =
     (let v = ee sE in
      if STATS_UNSET_INT = uint v then False
      else if v < sample
        then (if valuesLower + 1 \<ge> 18 then True
              else inTopQuartile_loop n ee (sE + 1) sample (valuesLower + 1))
      else inTopQuartile_loop n ee (sE + 1) sample valuesLower)"

definition inTopQuartile :: "eeprom \<Rightarrow> nat \<Rightarrow> u8 \<Rightarrow> bool" where
  "inTopQuartile ee sE sample = inTopQuartile_loop 24 ee sE sample 0"

text \<open>
  The layout of the statistics area (\<open>EE_STATS_SETS\<close>, \<open>EE_STATS_START_ADDR\<close>) is
  defined outside Control.cpp and is a parameter, as is the local-time hour returned by
  \<open>getHoursLT()\<close>.
\<close>

record StatsLayout =
  EE_STATS_SETS :: int
  EE_STATS_START_ADDR :: "u8 \<Rightarrow> nat"

definition inOutlierQuartile ::
    "StatsLayout \<Rightarrow> eeprom \<Rightarrow> u8 \<Rightarrow> u8 \<Rightarrow> u8 \<Rightarrow> u8 \<Rightarrow> bool" where
  "inOutlierQuartile L ee hoursLT inTop statsSet hour =
     (if uint statsSet \<ge> EE_STATS_SETS L then False
      else
        let hh = (if hour > 23 then hoursLT else hour);
            ss = EE_STATS_START_ADDR L statsSet;
            sample = ee (ss + unat hh)
        in if STATS_UNSET_INT = uint sample then False
           else if inTop \<noteq> 0 then inTopQuartile ee ss sample
           else inBottomQuartile ee ss sample)"

section \<open>Target temperature policy\<close>

text \<open>
  The setback sizes, the BAKE uplift, the limits of the target range and the number of the
  smoothed occupancy statistics set are macros defined outside Control.cpp; they are
  parameters here.
\<close>

record TargetConsts =
  SETBACK_DEFAULT :: int
  SETBACK_ECO :: int
  SETBACK_FULL :: int
  BAKE_UPLIFT :: int
  MIN_TARGET_C :: int
  MAX_TARGET_C :: int
  EE_STATS_SET_OCCPC_BY_HOUR_SMOOTHED :: u8
  statsLayout :: StatsLayout

text \<open>
  What the policy reads from the rest of the system on one call: the mode variables of
  Control.cpp (\<open>isWarmMode\<close>, \<open>bakeCountdownM\<close>), the values returned by
  \<open>getFROSTTargetC()\<close>, \<open>getWARMTargetC()\<close> and \<open>hasEcoBias()\<close> (each has several
  build variants in Control.cpp), the occupancy tracker's and ambient light sensor's
  judgements, the schedule, the user interface, the EEPROM and the clock.
\<close>

record Readings =
  isWarmMode :: bool
  bakeCountdownM :: u8
  FROSTTargetC :: u8
  WARMTargetC :: u8
  ecoBias :: bool
  isEcoTemperature :: "u8 \<Rightarrow> bool"
  occLongVacant :: bool
  occLongLongVacant :: bool
  occIsLikelyOccupied :: bool
  occIsLikelyUnoccupied :: bool
  ambDarkMinutes :: nat
  ambIsRoomLit :: bool
  ambIsRoomDark :: bool
  anyScheduleOnWARMNow :: bool
  anyScheduleOnWARMSoon :: bool
  recentUIControlUse :: bool
  eepromBytes :: eeprom
  hoursLT :: u8
  TemperatureC16 :: int

definition inWarmMode :: "Readings \<Rightarrow> bool" where
  "inWarmMode E = isWarmMode E"

text \<open>With \<open>SUPPORT_BAKE\<close> defined.\<close>

definition inBakeModeNow :: "Readings \<Rightarrow> bool" where
  "inBakeModeNow E = (isWarmMode E \<and> 0 \<noteq> bakeCountdownM E)"

text \<open>
  \<open>inOutlierQuartile(inTop, EE_STATS_SET_OCCPC_BY_HOUR_SMOOTHED)\<close> with the hour left
  to its default, "\<open>~0\<close> for current hour".
\<close>

definition occQuartile :: "TargetConsts \<Rightarrow> Readings \<Rightarrow> bool \<Rightarrow> bool" where
  "occQuartile K E inTop =
     inOutlierQuartile (statsLayout K) (eepromBytes E) (hoursLT E)
       (if inTop then 1 else 0) (EE_STATS_SET_OCCPC_BY_HOUR_SMOOTHED K) 0xFF"

text \<open>The condition under which the WARM branch applies a setback.\<close>

definition notLikelyOccupiedSoon :: "TargetConsts \<Rightarrow> Readings \<Rightarrow> bool" where
  "notLikelyOccupiedSoon K E =
     (occLongLongVacant E \<or> (occIsLikelyUnoccupied E \<and> occQuartile K E False))"

definition setbackApplies :: "TargetConsts \<Rightarrow> Readings \<Rightarrow> bool" where
  "setbackApplies K E =
     (let longLongVacant = occLongLongVacant E;
          longVacant = (longLongVacant \<or> occLongVacant E)
      in longVacant \<or>
         ((notLikelyOccupiedSoon K E \<or> ambDarkMinutes E > 10)
            \<and> \<not> anyScheduleOnWARMNow E \<and> \<not> recentUIControlUse E))"

definition chosenSetback :: "TargetConsts \<Rightarrow> Readings \<Rightarrow> int" where
  "chosenSetback K E =
     (let wt = WARMTargetC E;
          longLongVacant = occLongLongVacant E;
          longVacant = (longLongVacant \<or> occLongVacant E)
      in if \<not> ecoBias E \<or>
            occIsLikelyOccupied E \<or>
            (\<not> longLongVacant \<and> ambIsRoomLit E) \<or>
            (\<not> longLongVacant \<and> occQuartile K E True) \<or>
            (\<not> longVacant \<and> anyScheduleOnWARMSoon E)
         then SETBACK_DEFAULT K
         else if longLongVacant \<or> (notLikelyOccupiedSoon K E \<and> isEcoTemperature E wt)
         then SETBACK_FULL K
         else SETBACK_ECO K)"

definition computeTargetTemp :: "TargetConsts \<Rightarrow> Readings \<Rightarrow> u8" where
  "computeTargetTemp K E =
     (if \<not> inWarmMode E then
        (let frostC = FROSTTargetC E in
         if \<not> occLongVacant E \<and> anyScheduleOnWARMSoon E \<and> \<not> recentUIControlUse E
         then
           (let warmTarget = WARMTargetC E;
                preWarmTempC =
                  fnmax (word_of_int
                           (uint warmTarget
                              - (if ecoBias E then SETBACK_ECO K else SETBACK_DEFAULT K)) :: u8)
                        frostC
            in if frostC < preWarmTempC \<and> \<not> isEcoTemperature E warmTarget
               then preWarmTempC
               else frostC)
         else frostC)
      else if inBakeModeNow E then
        fnmin (word_of_int (uint (WARMTargetC E) + BAKE_UPLIFT K) :: u8)
              (word_of_int (MAX_TARGET_C K) :: u8)
      else
        (let wt = WARMTargetC E in
         if setbackApplies K E
         then fnmax (word_of_int (uint wt - chosenSetback K E) :: u8) (FROSTTargetC E)
         else wt))"

section \<open>Modelled radiator valve\<close>

definition TRV_MIN_SLEW_PC :: int where
  "TRV_MIN_SLEW_PC = 7"

definition TRV_MIN_SLEW_PC_PER_MIN :: int where
  "TRV_MIN_SLEW_PC_PER_MIN = 1"

text \<open>Without \<open>TRV_SLEW_GLACIAL\<close>, and with no override of the defaults of Control.cpp.\<close>

definition TRV_MAX_SLEW_PC_PER_MIN :: int where
  "TRV_MAX_SLEW_PC_PER_MIN = 5"

definition TRV_SLEW_PC_PER_MIN_VFAST :: int where
  "TRV_SLEW_PC_PER_MIN_VFAST = min 34 (4 * TRV_MAX_SLEW_PC_PER_MIN)"

definition TRV_SLEW_PC_PER_MIN_FAST :: int where
  "TRV_SLEW_PC_PER_MIN_FAST = min 20 (2 * TRV_MAX_SLEW_PC_PER_MIN)"

definition refTempOffsetC16 :: int where
  "refTempOffsetC16 = 8"

definition MAX_TEMP_JUMP_C16 :: int where
  "MAX_TEMP_JUMP_C16 = 3"

text \<open>
  Constants and a helper template that Control.h and other headers define; they are
  parameters here: the "moderately open" percentage, the run-on time, the full setback
  and the lowest target (both used by the glacial test), the length of the filter memory,
  the mean computed by \<open>smallIntMean\<close>, and the two fixed delays, in ticks, loaded into
  the hysteresis countdowns.
\<close>

record ValveConsts =
  DEFAULT_VALVE_PC_MODERATELY_OPEN :: int
  DEFAULT_MAX_RUN_ON_TIME_M :: int
  VALVE_SETBACK_FULL :: int
  VALVE_MIN_TARGET_C :: int
  filterLength :: nat
  smallIntMean :: "int list \<Rightarrow> int"
  VALVE_RECLOSE_DELAY_M :: u8
  VALVE_REOPEN_DELAY_M :: u8

record ModelledRadValveInputState =
  targetTempC :: u8
  minPCOpen :: u8
  maxPCOpen :: u8
  widenDeadband :: bool
  glacial :: bool
  hasEcoBias :: bool
  inBakeMode :: bool
  refTempC16 :: int

text \<open>
  The retained state. The width of \<open>cumulativeMovementPC\<close> is declared in Control.h;
  it is a diagnostic counter, taken as 16 bits here.
\<close>

record ModelledRadValveState =
  initialised :: bool
  isFiltering :: bool
  valveMoved :: bool
  cumulativeMovementPC :: u16
  valveTurndownCountdownM :: u8
  valveTurnupCountdownM :: u8
  prevRawTempC16 :: "int list"

definition setReferenceTemperatures ::
    "int \<Rightarrow> ModelledRadValveInputState \<Rightarrow> ModelledRadValveInputState" where
  "setReferenceTemperatures currentTempC16 i =
     (let referenceTempC16 = currentTempC16 + refTempOffsetC16
      in i\<lparr>refTempC16 := referenceTempC16\<rparr>)"

definition getSmoothedRecent :: "ValveConsts \<Rightarrow> ModelledRadValveState \<Rightarrow> int" where
  "getSmoothedRecent K rs = smallIntMean K (prevRawTempC16 rs)"

text \<open>
  Modelled from the spec: the inline members \<open>dontTurnup()\<close>, \<open>dontTurndown()\<close>,
  \<open>valveTurnup()\<close>, \<open>valveTurndown()\<close> and \<open>getRawDelta()\<close> of the retained state
  are declared in Control.h. The spec: a hysteresis timer is set for a fixed number of
  ticks whenever a move is made, a "recently turned down" timer defers any re-opening and
  a "recently turned up" timer defers any closing; the raw trend is the change between
  the two most recent raw samples, positive when rising.
\<close>

definition dontTurnup :: "ModelledRadValveState \<Rightarrow> bool" where
  "dontTurnup rs = (0 \<noteq> valveTurndownCountdownM rs)"

definition dontTurndown :: "ModelledRadValveState \<Rightarrow> bool" where
  "dontTurndown rs = (0 \<noteq> valveTurnupCountdownM rs)"

definition valveTurndown :: "ValveConsts \<Rightarrow> ModelledRadValveState \<Rightarrow> ModelledRadValveState" where
  "valveTurndown K rs = rs\<lparr>valveTurndownCountdownM := VALVE_REOPEN_DELAY_M K\<rparr>"

definition valveTurnup :: "ValveConsts \<Rightarrow> ModelledRadValveState \<Rightarrow> ModelledRadValveState" where
  "valveTurnup K rs = rs\<lparr>valveTurnupCountdownM := VALVE_RECLOSE_DELAY_M K\<rparr>"

definition getRawDelta :: "ModelledRadValveState \<Rightarrow> int" where
  "getRawDelta rs = prevRawTempC16 rs ! 0 - prevRawTempC16 rs ! 1"

text \<open>
  The temperature used for targeting, in 16ths, and its whole degrees as the \<open>int8_t\<close>
  of the source.
\<close>

definition adjustedTempC16 ::
    "ValveConsts \<Rightarrow> ModelledRadValveInputState \<Rightarrow> ModelledRadValveState \<Rightarrow> int" where
  "adjustedTempC16 K i rs =
     (if isFiltering rs then getSmoothedRecent K rs + refTempOffsetC16 else refTempC16 i)"

definition adjustedTempC ::
    "ValveConsts \<Rightarrow> ModelledRadValveInputState \<Rightarrow> ModelledRadValveState \<Rightarrow> int" where
  "adjustedTempC K i rs = sint (word_of_int (drop_bit 4 (adjustedTempC16 K i rs)) :: u8)"

text \<open>The three branches of \<open>computeRequiredTRVPercentOpen\<close>, in the order of the source.\<close>

definition openWhenUnderTarget ::
    "ValveConsts \<Rightarrow> u8 \<Rightarrow> ModelledRadValveInputState \<Rightarrow> ModelledRadValveState \<Rightarrow> u8" where
  "openWhenUnderTarget K valvePCOpen i rs =
     (if valvePCOpen < maxPCOpen i then
        (if inBakeMode i then maxPCOpen i
         else if dontTurnup rs then valvePCOpen
         else
           let beGlacial =
                 (glacial i \<or>
                  (valvePCOpen \<ge> minPCOpen i \<and>
                   ((widenDeadband i \<and> hasEcoBias i \<and>
                     adjustedTempC K i rs
                       \<ge> uint (word_of_int
                                  (fnmax (uint (targetTempC i) - VALVE_SETBACK_FULL K)
                                         (VALVE_MIN_TARGET_C K)) :: u8)) \<or>
                    (isFiltering rs \<and> getRawDelta rs > 0))))
           in if beGlacial then valvePCOpen + 1
              else
                let slewRate :: u8 =
                      (if uint valvePCOpen \<ge> DEFAULT_VALVE_PC_MODERATELY_OPEN K \<or>
                          adjustedTempC K i rs = uint (targetTempC i) - 1
                       then word_of_int TRV_MAX_SLEW_PC_PER_MIN
                       else word_of_int TRV_SLEW_PC_PER_MIN_FAST);
                    minOpenFromCold = fnmax slewRate (minPCOpen i)
                in if valvePCOpen < minOpenFromCold then minOpenFromCold
                   else fnmin (valvePCOpen + slewRate) (maxPCOpen i))
      else maxPCOpen i)"

definition closeWhenOverTarget ::
    "ValveConsts \<Rightarrow> u8 \<Rightarrow> ModelledRadValveInputState \<Rightarrow> ModelledRadValveState \<Rightarrow> u8" where
  "closeWhenOverTarget K valvePCOpen i rs =
     (if 0 \<noteq> valvePCOpen then
        (if dontTurndown rs then valvePCOpen
         else
           let justOverTemp = (adjustedTempC K i rs = uint (targetTempC i) + 1) in
           if justOverTemp \<and> widenDeadband i \<and> getRawDelta rs < 0 then valvePCOpen
           else if justOverTemp \<and> isFiltering rs then valvePCOpen - 1
           else
             let minReallyOpen = minPCOpen i;
                 lingerThreshold :: u8 = (if minReallyOpen > 0 then minReallyOpen - 1 else 0)
             in if valvePCOpen < minReallyOpen then
                  (if DEFAULT_MAX_RUN_ON_TIME_M K < uint minReallyOpen \<and>
                      uint valvePCOpen < uint minReallyOpen - DEFAULT_MAX_RUN_ON_TIME_M K
                   then 0
                   else valvePCOpen - 1)
                else if (\<not> hasEcoBias i \<or> justOverTemp \<or> isFiltering rs) \<and>
                        uint valvePCOpen
                          > constrain (uint lingerThreshold + TRV_SLEW_PC_PER_MIN_FAST)
                              TRV_SLEW_PC_PER_MIN_FAST (uint (maxPCOpen i))
                then valvePCOpen - word_of_int TRV_SLEW_PC_PER_MIN_FAST
                else lingerThreshold)
      else 0)"

definition regulateNearTarget ::
    "ValveConsts \<Rightarrow> u8 \<Rightarrow> ModelledRadValveInputState \<Rightarrow> ModelledRadValveState \<Rightarrow> u8" where
  "regulateNearTarget K valvePCOpen i rs =
     (let lsbits :: u8 = word_of_int (adjustedTempC16 K i rs AND 0xF);
          tmp :: u8 = 16 - lsbits;
          ulpStep :: u8 = 6;
          targetPORaw :: u8 = tmp * ulpStep;
          targetPO :: u8 = constrain targetPORaw (minPCOpen i) (maxPCOpen i)
      in if targetPO \<noteq> valvePCOpen then
           (let tooOpen = (targetPO < valvePCOpen);
                realMinUlp :: u8 = 1 + ulpStep;
                minAbsSlew :: u8 =
                  fnmax realMinUlp
                    (word_of_int
                       (if widenDeadband i
                        then max (min (DEFAULT_VALVE_PC_MODERATELY_OPEN K div 2)
                                      (max TRV_MAX_SLEW_PC_PER_MIN (2 * TRV_MIN_SLEW_PC)))
                                 (2 + TRV_MIN_SLEW_PC)
                        else TRV_MIN_SLEW_PC))
            in if tooOpen then
                 (let slew :: u8 = valvePCOpen - targetPO in
                  if slew < minAbsSlew then valvePCOpen
                  else if dontTurndown rs then valvePCOpen
                  else if getRawDelta rs \<le> 0 then valvePCOpen
                  else
                    let beGlacial =
                          (glacial i \<or>
                           ((widenDeadband i \<or> isFiltering rs) \<and>
                            uint valvePCOpen \<le> DEFAULT_VALVE_PC_MODERATELY_OPEN K) \<or>
                           lsbits < 8)
                    in if beGlacial then valvePCOpen - 1
                       else if uint slew > TRV_SLEW_PC_PER_MIN_FAST
                       then valvePCOpen - word_of_int TRV_SLEW_PC_PER_MIN_FAST
                       else targetPO)
               else if inBakeMode i then maxPCOpen i
               else
                 (let slew :: u8 = targetPO - valvePCOpen in
                  if slew < minAbsSlew then valvePCOpen
                  else if dontTurnup rs then valvePCOpen
                  else
                    let rise = getRawDelta rs in
                    if rise > 0 then valvePCOpen
                    else if lsbits \<ge> (if widenDeadband i then 8 else 12) then valvePCOpen
                    else
                      let beGlacial =
                            (glacial i \<or> widenDeadband i \<or> lsbits \<ge> 8 \<or>
                             (lsbits \<ge> 4 \<and>
                              uint valvePCOpen \<ge> DEFAULT_VALVE_PC_MODERATELY_OPEN K))
                      in if beGlacial then valvePCOpen + 1
                         else
                           let maxSlew :: u8 =
                                 (if \<not> hasEcoBias i
                                  then word_of_int TRV_SLEW_PC_PER_MIN_FAST
                                  else word_of_int TRV_MAX_SLEW_PC_PER_MIN)
                           in if slew > maxSlew then valvePCOpen + maxSlew
                              else targetPO))
         else valvePCOpen)"

text \<open>With \<open>SUPPORT_BAKE\<close> and \<open>GLACIAL_ON_WITH_WIDE_DEADBAND\<close> defined.\<close>

definition computeRequiredTRVPercentOpen ::
    "ValveConsts \<Rightarrow> u8 \<Rightarrow> ModelledRadValveInputState \<Rightarrow> ModelledRadValveState \<Rightarrow> u8" where
  "computeRequiredTRVPercentOpen K valvePCOpen i rs =
     (if adjustedTempC K i rs < uint (targetTempC i)
      then openWhenUnderTarget K valvePCOpen i rs
      else if adjustedTempC K i rs > uint (targetTempC i)
      then closeWhenOverTarget K valvePCOpen i rs
      else regulateNearTarget K valvePCOpen i rs)"

text \<open>
  The loops of \<open>tick\<close> over the filter memory. \<open>fillFrom n r\<close> writes \<open>r\<close> at the
  indices \<open>n - 1\<close> down to 0; \<open>shiftFrom j\<close> copies each element one place up, for the
  indices \<open>j\<close> down to 1; \<open>anyJump\<close> is the scan for two adjacent readings further
  apart than \<open>MAX_TEMP_JUMP_C16\<close>. The array has \<open>filterLength\<close> elements, so every
  index used is in range when the list has that length.
\<close>

primrec fillFrom :: "nat \<Rightarrow> int \<Rightarrow> int list \<Rightarrow> int list" where
  "fillFrom 0 r xs = xs"
| "fillFrom (Suc n) r xs = fillFrom n r (xs[n := r])"

primrec shiftFrom :: "nat \<Rightarrow> int list \<Rightarrow> int list" where
  "shiftFrom 0 xs = xs"
| "shiftFrom (Suc j) xs = shiftFrom j (xs[Suc j := xs ! j])"

definition anyJump :: "nat \<Rightarrow> int list \<Rightarrow> bool" where
  "anyJump n xs = list_ex (\<lambda>k. \<bar>xs ! k - xs ! (k - 1)\<bar> > MAX_TEMP_JUMP_C16) [1..<n]"

text \<open>
  \<open>ModelledRadValveState::tick\<close>, in two parts. First the filter memory, the filter
  switch and the two countdowns are updated; then the valve position is recomputed from
  the updated state and the move, if any, is recorded. The valve position is passed by
  reference in the source; here it is passed in and returned with the new retained state.
\<close>

definition tickFilterAndTimers ::
    "ValveConsts \<Rightarrow> ModelledRadValveInputState \<Rightarrow> ModelledRadValveState
       \<Rightarrow> ModelledRadValveState" where
  "tickFilterAndTimers K i rs =
     (let rawTempC16 = refTempC16 i - refTempOffsetC16;
          rs1 = (if \<not> initialised rs
                 then rs\<lparr>initialised := True,
                         prevRawTempC16 := fillFrom (filterLength K) rawTempC16 (prevRawTempC16 rs)\<rparr>
                 else rs);
          rs2 = rs1\<lparr>prevRawTempC16 :=
                       (shiftFrom (filterLength K - 1) (prevRawTempC16 rs1))[0 := rawTempC16]\<rparr>;
          rs3 = (if isFiltering rs2 \<and>
                    \<bar>getSmoothedRecent K rs2 - rawTempC16\<bar> \<le> MAX_TEMP_JUMP_C16
                 then rs2\<lparr>isFiltering := False\<rparr> else rs2);
          rs4 = (if \<not> isFiltering rs3 \<and> anyJump (filterLength K) (prevRawTempC16 rs3)
                 then rs3\<lparr>isFiltering := True\<rparr> else rs3);
          rs5 = (if valveTurndownCountdownM rs4 > 0
                 then rs4\<lparr>valveTurndownCountdownM := valveTurndownCountdownM rs4 - 1\<rparr>
                 else rs4)
      in (if valveTurnupCountdownM rs5 > 0
          then rs5\<lparr>valveTurnupCountdownM := valveTurnupCountdownM rs5 - 1\<rparr>
          else rs5))"

definition tick ::
    "ValveConsts \<Rightarrow> u8 \<Rightarrow> ModelledRadValveInputState \<Rightarrow> ModelledRadValveState
       \<Rightarrow> u8 \<times> ModelledRadValveState" where
  "tick K valvePCOpenRef i rs =
     (let rs6 = tickFilterAndTimers K i rs;
          newValvePC = computeRequiredTRVPercentOpen K valvePCOpenRef i rs6;
          changed = (newValvePC \<noteq> valvePCOpenRef);
          rs7 = (if changed then
                   (if newValvePC > valvePCOpenRef
                    then (valveTurnup K rs6)
                           \<lparr>cumulativeMovementPC :=
                              cumulativeMovementPC rs6 + ucast (newValvePC - valvePCOpenRef)\<rparr>
                    else (valveTurndown K rs6)
                           \<lparr>cumulativeMovementPC :=
                              cumulativeMovementPC rs6 + ucast (valvePCOpenRef - newValvePC)\<rparr>)
                 else rs6)
      in (newValvePC, rs7\<lparr>valveMoved := changed\<rparr>))"

text \<open>Successive ticks, one per input state.\<close>

fun ticks ::
    "ValveConsts \<Rightarrow> u8 \<times> ModelledRadValveState \<Rightarrow> ModelledRadValveInputState list
       \<Rightarrow> u8 \<times> ModelledRadValveState" where
  "ticks K vs [] = vs"
| "ticks K vs (i # is) = ticks K (tick K (fst vs) i (snd vs)) is"

text \<open>
  \<open>ModelledRadValve::computeTargetTemperature\<close>. The members of the valve object that
  it reads and writes, and the two percentages returned by \<open>getMinPercentOpen()\<close> and
  \<open>getMaxPercentageOpenAllowed()\<close>, which Control.h declares.
\<close>

record ModelledRadValve =
  inputState :: ModelledRadValveInputState
  retainedState :: ModelledRadValveState
  callingForHeat :: bool
  mrvGlacial :: bool
  minPercentOpen :: u8
  maxPercentageOpenAllowed :: u8

definition computeTargetTemperature ::
    "TargetConsts \<Rightarrow> Readings \<Rightarrow> ModelledRadValve \<Rightarrow> ModelledRadValve" where
  "computeTargetTemperature K E m =
     (let newTarget = computeTargetTemp K E;
          i1 = (inputState m)\<lparr>targetTempC := newTarget,
                               minPCOpen := minPercentOpen m,
                               maxPCOpen := maxPercentageOpenAllowed m,
                               glacial := mrvGlacial m,
                               inBakeMode := inBakeModeNow E,
                               hasEcoBias := ecoBias E,
                               widenDeadband :=
                                 (ambIsRoomDark E \<or> occLongVacant E \<or> \<not> inWarmMode E \<or>
                                  isFiltering (retainedState m))\<rparr>;
          i2 = setReferenceTemperatures (TemperatureC16 E) i1
      in m\<lparr>inputState := i2,
            callingForHeat := (uint newTarget \<ge> drop_bit 4 (refTempC16 i2))\<rparr>)"

text \<open>
  Inputs whose percentages are consistent with a maximum \<open>M\<close>: the maximum allowed
  opening is \<open>M\<close> and the minimum really-open percentage does not exceed it.
\<close>

definition inputWithin :: "u8 \<Rightarrow> ModelledRadValveInputState \<Rightarrow> bool" where
  "inputWithin M i = (maxPCOpen i = M \<and> minPCOpen i \<le> M)"

section \<open>Concrete states and inputs used to exercise the theorems\<close>





text \<open>
  A statistics set part-way through its first day: hours 0 to 18 sampled, hours 19 to 23
  still unset. In the first the value of hour 18 is the lowest, in the second the highest.
\<close>

definition partialDayLow :: eeprom where
  "partialDayLow a = (if a < 18 then 10 else if a = 18 then 5 else 0xFF)"

definition partialDayHigh :: eeprom where
  "partialDayHigh a = (if a < 18 then 10 else if a = 18 then 20 else 0xFF)"

definition oneSetLayout :: StatsLayout where
  "oneSetLayout = \<lparr>EE_STATS_SETS = 1, EE_STATS_START_ADDR = (\<lambda>n. 24 * unat n)\<rparr>"

text \<open>
  Values for the constants that the headers define, and a rounded mean for
  \<open>smallIntMean\<close>: a window of 5 ticks after an opening move and of 10 ticks after a
  closing move.
\<close>

definition valveConsts :: ValveConsts where
  "valveConsts =
     \<lparr>DEFAULT_VALVE_PC_MODERATELY_OPEN = 35, DEFAULT_MAX_RUN_ON_TIME_M = 5,
      VALVE_SETBACK_FULL = 6, VALVE_MIN_TARGET_C = 5, filterLength = 16,
      smallIntMean = (\<lambda>xs. (sum_list xs + int (length xs div 2)) div int (length xs)),
      VALVE_RECLOSE_DELAY_M = 5, VALVE_REOPEN_DELAY_M = 10\<rparr>"

text \<open>A retained state before its first tick, and one whose valve was closed recently.\<close>

definition freshState :: ModelledRadValveState where
  "freshState =
     \<lparr>initialised = False, isFiltering = False, valveMoved = False,
      cumulativeMovementPC = 0, valveTurndownCountdownM = 0, valveTurnupCountdownM = 0,
      prevRawTempC16 = replicate 16 0\<rparr>"

definition recentlyClosedState :: ModelledRadValveState where
  "recentlyClosedState =
     \<lparr>initialised = True, isFiltering = False, valveMoved = False,
      cumulativeMovementPC = 0, valveTurndownCountdownM = 3, valveTurnupCountdownM = 0,
      prevRawTempC16 = replicate 16 280\<rparr>"

text \<open>
  Inputs with a 10 to 100 percent range: a cold room (18 C against a target of 21 C,
  comfort bias), the same room in BAKE mode, a room one 16th of a degree into the degree
  above a target of 20 C, the same room one 16th lower, at the top of the proportional
  band, and that room with the target raised to 25 C by BAKE.
\<close>

definition coldRoomInput :: ModelledRadValveInputState where
  "coldRoomInput =
     \<lparr>targetTempC = 21, minPCOpen = 10, maxPCOpen = 100, widenDeadband = False,
      glacial = False, hasEcoBias = False, inBakeMode = False, refTempC16 = 288\<rparr>"

definition coldRoomBakeInput :: ModelledRadValveInputState where
  "coldRoomBakeInput = coldRoomInput\<lparr>inBakeMode := True\<rparr>"

definition justOverInput :: ModelledRadValveInputState where
  "justOverInput =
     \<lparr>targetTempC = 20, minPCOpen = 10, maxPCOpen = 100, widenDeadband = False,
      glacial = False, hasEcoBias = True, inBakeMode = False, refTempC16 = 336\<rparr>"

definition justUnderInput :: ModelledRadValveInputState where
  "justUnderInput = justOverInput\<lparr>refTempC16 := 335\<rparr>"

definition bakeStartedInput :: ModelledRadValveInputState where
  "bakeStartedInput = justOverInput\<lparr>targetTempC := 25, inBakeMode := True\<rparr>"

text \<open>Readings and constants for the target temperature policy: a long vacant room.\<close>

definition targetConsts :: TargetConsts where
  "targetConsts =
     \<lparr>SETBACK_DEFAULT = 1, SETBACK_ECO = 3, SETBACK_FULL = 6, BAKE_UPLIFT = 5,
      MIN_TARGET_C = 5, MAX_TARGET_C = 95, EE_STATS_SET_OCCPC_BY_HOUR_SMOOTHED = 0,
      statsLayout = oneSetLayout\<rparr>"

definition longVacantReadings :: Readings where
  "longVacantReadings =
     \<lparr>isWarmMode = True, bakeCountdownM = 0, FROSTTargetC = 5, WARMTargetC = 20,
      ecoBias = True, isEcoTemperature = (\<lambda>t. t \<le> 17),
      occLongVacant = True, occLongLongVacant = True, occIsLikelyOccupied = False,
      occIsLikelyUnoccupied = True, ambDarkMinutes = 0, ambIsRoomLit = False,
      ambIsRoomDark = True, anyScheduleOnWARMNow = False, anyScheduleOnWARMSoon = False,
      recentUIControlUse = False, eepromBytes = partialDayLow, hoursLT = 18,
      TemperatureC16 = 300\<rparr>"

text \<open>
  The room of \<open>justOverInput\<close> half a degree lower, in the middle of the proportional
  band, and with the target raised to 25 C outside BAKE mode.
\<close>

definition midBandInput :: ModelledRadValveInputState where
  "midBandInput = justOverInput\<lparr>refTempC16 := 328\<rparr>"

definition targetRaisedInput :: ModelledRadValveInputState where
  "targetRaisedInput = justOverInput\<lparr>targetTempC := 25\<rparr>"

text \<open>A valve object that was calling for heat before the target is recomputed.\<close>

definition idleValve :: ModelledRadValve where
  "idleValve =
     \<lparr>inputState = coldRoomInput, retainedState = freshState, callingForHeat = True,
      mrvGlacial = False, minPercentOpen = 10, maxPercentageOpenAllowed = 100\<rparr>"

section \<open>Helper facts about bytes\<close>

lemma unat_u8_lt: "unat (x :: u8) < 256"
  using unsigned_less[of x, where 'a = nat] by simp

lemma uint_u8_lt: "uint (x :: u8) < 256"
  using unsigned_less[of x, where 'a = int] by simp

lemma uint_u8_of_int: "0 \<le> x \<Longrightarrow> x < 256 \<Longrightarrow> uint (word_of_int x :: u8) = x"
  by (simp add: uint_word_of_int_eq take_bit_int_eq_self)

lemma unat_ucast_u8_u16: "unat (ucast (x :: u8) :: u16) = unat x"
proof -
  have "unat x < 2 ^ 16" using unat_u8_lt[of x] by simp
  then show ?thesis by (simp add: unsigned_ucast_eq take_bit_nat_eq_self)
qed

lemma unat_ucast_u16_u8: "unat (w :: u16) < 256 \<Longrightarrow> unat (ucast w :: u8) = unat w"
  by (simp add: unsigned_ucast_eq take_bit_nat_eq_self)

lemma unat_and_7: "unat ((r :: u8) AND 7) = unat r mod 8"
proof -
  have "r AND 7 = take_bit 3 r" by (simp add: take_bit_eq_mask mask_eq_exp_minus_1)
  then show ?thesis by (simp add: take_bit_eq_mod unat_mod)
qed

lemma int_div8_bounds: "8 * ((x::int) div 8) \<le> x \<and> x < 8 * (x div 8) + 8"
  by presburger

lemma int_div2_bounds: "2 * ((x::int) div 2) \<le> x \<and> x < 2 * (x div 2) + 2"
  by presburger

section \<open>The temperature codec: bands, round trip, monotonicity\<close>

lemma codec_thresholds:
  "COMPRESSION_C16_LOW_THRESHOLD = 256" "COMPRESSION_C16_LOW_THR_AFTER = 32"
  "COMPRESSION_C16_HIGH_THRESHOLD = 384" "COMPRESSION_C16_HIGH_THR_AFTER = 96"
  "COMPRESSION_C16_CEIL_VAL = 1600" "COMPRESSION_C16_CEIL_VAL_AFTER = 248"
  by (simp_all add: COMPRESSION_C16_LOW_THRESHOLD_def COMPRESSION_C16_LOW_THR_AFTER_def
      COMPRESSION_C16_HIGH_THRESHOLD_def COMPRESSION_C16_HIGH_THR_AFTER_def
      COMPRESSION_C16_CEIL_VAL_def COMPRESSION_C16_CEIL_VAL_AFTER_def)

text \<open>The byte produced by the compression, read as a number, band by band.\<close>

lemma uint_compressTempC16:
  "uint (compressTempC16 t) =
     (if t \<le> 0 then 0
      else if t < 256 then t div 8
      else if t < 384 then (t - 256) div 2 + 32
      else if t < 1600 then (t - 384) div 8 + 96
      else 248)"
proof -
  have lo: "0 < t \<Longrightarrow> t < 256 \<Longrightarrow> uint (word_of_int (t div 8) :: u8) = t div 8"
    by (rule uint_u8_of_int) auto
  have mid: "256 \<le> t \<Longrightarrow> t < 384 \<Longrightarrow>
      uint (word_of_int ((t - 256) div 2 + 32) :: u8) = (t - 256) div 2 + 32"
    by (rule uint_u8_of_int) auto
  have hi: "384 \<le> t \<Longrightarrow> t < 1600 \<Longrightarrow>
      uint (word_of_int ((t - 384) div 8 + 96) :: u8) = (t - 384) div 8 + 96"
    by (rule uint_u8_of_int) auto
  show ?thesis
    unfolding compressTempC16_def codec_thresholds drop_bit_eq_div
    using lo mid hi by (simp del: of_int_add)
qed

lemma expandTempC16_bands:
  "expandTempC16 c =
     (if uint c < 32 then 8 * uint c
      else if uint c < 96 then 2 * (uint c - 32) + 256
      else if uint c \<le> 248 then 8 * (uint c - 96) + 384
      else 255)"
  by (simp add: expandTempC16_def codec_thresholds push_bit_eq_mult STATS_UNSET_INT_def)

lemma roundtrip_low_band:
  assumes "0 \<le> t" "t < 256"
  shows "expandTempC16 (compressTempC16 t) \<le> t \<and> t - expandTempC16 (compressTempC16 t) < 8"
proof (cases "t = 0")
  case True
  then show ?thesis by (simp add: expandTempC16_bands uint_compressTempC16)
next
  case False
  with assms have u: "uint (compressTempC16 t) = t div 8"
    by (simp add: uint_compressTempC16)
  from assms int_div8_bounds[of t] have "t div 8 < 32" by linarith
  with u int_div8_bounds[of t] show ?thesis by (simp add: expandTempC16_bands)
qed

lemma roundtrip_mid_band:
  assumes "256 \<le> t" "t < 384"
  shows "expandTempC16 (compressTempC16 t) \<le> t \<and> t - expandTempC16 (compressTempC16 t) < 2"
proof -
  from assms have u: "uint (compressTempC16 t) = (t - 256) div 2 + 32"
    by (simp add: uint_compressTempC16)
  from assms int_div2_bounds[of "t - 256"]
  have "0 \<le> (t - 256) div 2" "(t - 256) div 2 < 64" by linarith+
  with u int_div2_bounds[of "t - 256"] show ?thesis by (simp add: expandTempC16_bands)
qed

lemma roundtrip_high_band:
  assumes "384 \<le> t" "t < 1600"
  shows "expandTempC16 (compressTempC16 t) \<le> t \<and> t - expandTempC16 (compressTempC16 t) < 8"
proof -
  from assms have u: "uint (compressTempC16 t) = (t - 384) div 8 + 96"
    by (simp add: uint_compressTempC16)
  from assms int_div8_bounds[of "t - 384"]
  have "0 \<le> (t - 384) div 8" "(t - 384) div 8 < 152" by linarith+
  with u int_div8_bounds[of "t - 384"] show ?thesis by (simp add: expandTempC16_bands)
qed

lemma roundtrip_ceiling: "expandTempC16 (compressTempC16 1600) = 1600"
  by (simp add: expandTempC16_bands uint_compressTempC16)

lemma compressTempC16_mono: "a \<le> b \<Longrightarrow> compressTempC16 a \<le> compressTempC16 b"
  unfolding word_le_def uint_compressTempC16
  using int_div8_bounds[of a] int_div8_bounds[of b]
    int_div2_bounds[of "a - 256"] int_div2_bounds[of "b - 256"]
    int_div8_bounds[of "a - 384"] int_div8_bounds[of "b - 384"]
  by (simp split: if_splits)

lemma uint_compressTempC16_le: "uint (compressTempC16 t) \<le> 248"
  unfolding uint_compressTempC16
  using int_div8_bounds[of t] int_div2_bounds[of "t - 256"] int_div8_bounds[of "t - 384"]
  by simp

text \<open>
  Claim C3. For every temperature \<open>t\<close> in 16ths of a degree in \<open>[0, 100 * 16]\<close>,
  expanding the compressed byte never overshoots \<open>t\<close> and falls short of it by less
  than the precision step of the band of \<open>t\<close>: 8 sixteenths (0.5 C, one bit after the
  binary point) below 16 C and from 24 C to 100 C, and 2 sixteenths (three bits after the
  binary point) in \<open>[16 C, 24 C)\<close>. The compression is monotonic non-decreasing over
  all inputs.
\<close>

theorem codec_roundtrip_within_band_and_monotone:
  "(0 \<le> t \<and> t \<le> COMPRESSION_C16_CEIL_VAL \<longrightarrow>
      expandTempC16 (compressTempC16 t) \<le> t \<and>
      t - expandTempC16 (compressTempC16 t)
        < (if COMPRESSION_C16_LOW_THRESHOLD \<le> t \<and> t < COMPRESSION_C16_HIGH_THRESHOLD
           then 2 else 8)) \<and>
   (a \<le> b \<longrightarrow> compressTempC16 a \<le> compressTempC16 b)"
proof (intro conjI impI)
  assume r: "0 \<le> t \<and> t \<le> COMPRESSION_C16_CEIL_VAL"
  then consider "t < 256" | "256 \<le> t" "t < 384" | "384 \<le> t" "t < 1600" | "t = 1600"
    unfolding codec_thresholds by linarith
  then have
    "expandTempC16 (compressTempC16 t) \<le> t \<and>
     t - expandTempC16 (compressTempC16 t) < (if 256 \<le> t \<and> t < 384 then 2 else 8)"
  proof cases
    case 1
    with r roundtrip_low_band[of t] show ?thesis by simp
  next
    case 2
    with roundtrip_mid_band[of t] show ?thesis by simp
  next
    case 3
    with roundtrip_high_band[of t] show ?thesis by simp
  next
    case 4
    with roundtrip_ceiling show ?thesis by simp
  qed
  then show "expandTempC16 (compressTempC16 t) \<le> t"
    and "t - expandTempC16 (compressTempC16 t)
           < (if COMPRESSION_C16_LOW_THRESHOLD \<le> t \<and> t < COMPRESSION_C16_HIGH_THRESHOLD
              then 2 else 8)"
    unfolding codec_thresholds by simp_all
next
  assume "a \<le> b"
  then show "compressTempC16 a \<le> compressTempC16 b" by (rule compressTempC16_mono)
qed

theorem codec_roundtrip_within_band_and_monotone_witness:
  "(0::int) \<le> 301 \<and> 301 \<le> COMPRESSION_C16_CEIL_VAL \<and>
   expandTempC16 (compressTempC16 301) \<le> 301 \<and>
   301 - expandTempC16 (compressTempC16 301) < 2 \<and>
   (100::int) \<le> 500 \<and> compressTempC16 100 \<le> compressTempC16 500"
  using codec_roundtrip_within_band_and_monotone[of 301 100 500]
  by (simp add: codec_thresholds)

text \<open>
  Claim C10. For every signed input the compressed byte is no greater than the compressed
  ceiling value, the encoding of 100 C, which is 248; so it is never the 0xFF unset
  marker, and expanding any compressed byte never gives the unset result.
\<close>

theorem compressTempC16_never_unset:
  "compressTempC16 t \<le> word_of_int COMPRESSION_C16_CEIL_VAL_AFTER \<and>
   COMPRESSION_C16_CEIL_VAL_AFTER = 248 \<and>
   compressTempC16 (COMPRESSION_C16_CEIL_VAL) = 248 \<and>
   compressTempC16 t \<noteq> 0xFF \<and>
   expandTempC16 (compressTempC16 t) \<noteq> STATS_UNSET_INT"
proof -
  have le: "uint (compressTempC16 t) \<le> 248" by (rule uint_compressTempC16_le)
  have a: "compressTempC16 t \<le> word_of_int COMPRESSION_C16_CEIL_VAL_AFTER"
    using le by (simp add: codec_thresholds word_le_def)
  have b: "compressTempC16 t \<noteq> 0xFF"
    using le by (auto simp: word_uint_eq_iff)
  have c: "compressTempC16 (COMPRESSION_C16_CEIL_VAL) = 248"
    by (simp add: word_uint_eq_iff uint_compressTempC16 codec_thresholds)
  have d: "expandTempC16 (compressTempC16 t) \<noteq> STATS_UNSET_INT"
    unfolding expandTempC16_bands STATS_UNSET_INT_def using le by (simp split: if_splits)
  from a b c d show ?thesis by (simp add: codec_thresholds)
qed

section \<open>Statistics smoothing stays between its arguments\<close>

lemma unat_smoothStatsValue:
  "unat (smoothStatsValue a b r) =
     (if a = b then unat a else (7 * unat a + unat b + unat r mod 8) div 8)"
proof (cases "a = b")
  case True
  then show ?thesis by (simp add: smoothStatsValue_def)
next
  case False
  let ?w = "push_bit 3 (ucast a :: u16) - ucast a + ucast b + ucast (r AND 7)"
  have la: "unat a < 256" "unat b < 256" by (rule unat_u8_lt)+
  have p: "push_bit 3 (ucast a :: u16) - ucast a = 7 * ucast a"
    by (simp add: push_bit_eq_mult)
  have w: "unat ?w = 7 * unat a + unat b + unat r mod 8"
    unfolding p using la
    by (simp add: unat_word_ariths unat_ucast_u8_u16 unat_and_7)
  have d: "unat (drop_bit 3 ?w) = (7 * unat a + unat b + unat r mod 8) div 8"
    by (simp only: unat_drop_bit_eq w) (simp add: drop_bit_eq_div)
  have lt: "(7 * unat a + unat b + unat r mod 8) div 8 < 256" using la by simp
  have "unat (ucast (drop_bit 3 ?w) :: u8) = (7 * unat a + unat b + unat r mod 8) div 8"
    using unat_ucast_u16_u8[of "drop_bit 3 ?w"] d lt by simp
  with False show ?thesis
    by (simp add: smoothStatsValue_def STATS_SMOOTH_SHIFT_def Let_def)
qed

text \<open>
  Claim C4. For every pair of bytes and every byte drawn from the random source (its low
  three bits are the stochastic addend, so every addend in \<open>[0, 2^3)\<close> occurs), the
  smoothed value is no greater than the larger and no less than the smaller of the old
  smoothed value and the new value.
\<close>

theorem smoothStatsValue_between_old_and_new:
  "smoothStatsValue oldSmoothed newValue rnd \<le> max oldSmoothed newValue \<and>
   min oldSmoothed newValue \<le> smoothStatsValue oldSmoothed newValue rnd"
proof -
  have m: "unat (max oldSmoothed newValue) = max (unat oldSmoothed) (unat newValue)"
    "unat (min oldSmoothed newValue) = min (unat oldSmoothed) (unat newValue)"
    by (simp_all add: max_def min_def word_le_nat_alt)
  have r: "unat rnd mod 8 < 8" by simp
  show ?thesis
    unfolding word_le_nat_alt m unat_smoothStatsValue
    using r word_unat_eq_iff[of oldSmoothed newValue] by (auto simp: max_def min_def)
qed

section \<open>Occupancy tracker: the per-minute tick\<close>





lemma unat_u8_succ: "x < (0xFF :: u8) \<Longrightarrow> unat (x + 1) = unat x + 1"
  by (simp add: unat_word_ariths word_less_nat_alt)





section \<open>Quartile queries\<close>

text \<open>
  On a set with no unset entry the loops count: the query is true exactly when at least
  18 of the 24 stored values are strictly above (bottom quartile) or strictly below (top
  quartile) the sample.
\<close>

lemma inBottomQuartile_loop_counts:
  "\<forall>k < length vs. ee (sE + k) = vs ! k \<Longrightarrow> 0xFF \<notin> set vs \<Longrightarrow> unat c < 18 \<Longrightarrow>
   inBottomQuartile_loop (length vs) ee sE sample c
     = (18 \<le> unat c + length (filter (\<lambda>v. sample < v) vs))"
proof (induction vs arbitrary: sE c)
  case Nil
  then show ?case by simp
next
  case (Cons v vs)
  have v: "ee sE = v" using Cons.prems(1) by force
  have rest: "\<forall>k < length vs. ee (Suc sE + k) = vs ! k"
    using Cons.prems(1) by force
  have nu: "STATS_UNSET_INT \<noteq> uint v"
    using Cons.prems(2) by (auto simp: STATS_UNSET_INT_def word_uint_eq_iff)
  have c1: "unat (c + 1) = unat c + 1"
    using Cons.prems(3) by (intro unat_u8_succ) (simp add: word_less_nat_alt)
  have ge: "(18 \<le> c + 1) = (18 \<le> unat c + 1)"
    by (simp add: word_le_nat_alt c1)
  show ?case
  proof (cases "sample < v")
    case True
    show ?thesis
    proof (cases "18 \<le> unat c + 1")
      case True
      with \<open>sample < v\<close> v nu ge show ?thesis by (simp add: Let_def)
    next
      case False
      then have "unat (c + 1) < 18" using c1 by simp
      from Cons.IH[OF rest _ this] Cons.prems(2) False \<open>sample < v\<close> v nu ge c1
      show ?thesis by (simp add: Let_def)
    qed
  next
    case False
    from Cons.IH[OF rest _ Cons.prems(3)] Cons.prems(2) False v nu
    show ?thesis by (simp add: Let_def)
  qed
qed

lemma inBottomQuartile_full_set:
  assumes "\<forall>h < 24. ee (sE + h) \<noteq> 0xFF"
  shows "inBottomQuartile ee sE sample
           = (18 \<le> length (filter (\<lambda>h. sample < ee (sE + h)) [0..<24]))"
proof -
  let ?vs = "map (\<lambda>h. ee (sE + h)) [0..<24]"
  have "inBottomQuartile_loop (length ?vs) ee sE sample 0
          = (18 \<le> unat (0 :: u8) + length (filter (\<lambda>v. sample < v) ?vs))"
    using assms by (intro inBottomQuartile_loop_counts) auto
  then show ?thesis
    by (simp add: inBottomQuartile_def filter_map comp_def)
qed

lemma inTopQuartile_loop_counts:
  "\<forall>k < length vs. ee (sE + k) = vs ! k \<Longrightarrow> 0xFF \<notin> set vs \<Longrightarrow> unat c < 18 \<Longrightarrow>
   inTopQuartile_loop (length vs) ee sE sample c
     = (18 \<le> unat c + length (filter (\<lambda>v. v < sample) vs))"
proof (induction vs arbitrary: sE c)
  case Nil
  then show ?case by simp
next
  case (Cons v vs)
  have v: "ee sE = v" using Cons.prems(1) by force
  have rest: "\<forall>k < length vs. ee (Suc sE + k) = vs ! k"
    using Cons.prems(1) by force
  have nu: "STATS_UNSET_INT \<noteq> uint v"
    using Cons.prems(2) by (auto simp: STATS_UNSET_INT_def word_uint_eq_iff)
  have c1: "unat (c + 1) = unat c + 1"
    using Cons.prems(3) by (intro unat_u8_succ) (simp add: word_less_nat_alt)
  have ge: "(18 \<le> c + 1) = (18 \<le> unat c + 1)"
    by (simp add: word_le_nat_alt c1)
  show ?case
  proof (cases "v < sample")
    case True
    show ?thesis
    proof (cases "18 \<le> unat c + 1")
      case True
      with \<open>v < sample\<close> v nu ge show ?thesis by (simp add: Let_def)
    next
      case False
      then have "unat (c + 1) < 18" using c1 by simp
      from Cons.IH[OF rest _ this] Cons.prems(2) False \<open>v < sample\<close> v nu ge c1
      show ?thesis by (simp add: Let_def)
    qed
  next
    case False
    from Cons.IH[OF rest _ Cons.prems(3)] Cons.prems(2) False v nu
    show ?thesis by (simp add: Let_def)
  qed
qed

lemma inTopQuartile_full_set:
  assumes "\<forall>h < 24. ee (sE + h) \<noteq> 0xFF"
  shows "inTopQuartile ee sE sample
           = (18 \<le> length (filter (\<lambda>h. ee (sE + h) < sample) [0..<24]))"
proof -
  let ?vs = "map (\<lambda>h. ee (sE + h)) [0..<24]"
  have "inTopQuartile_loop (length ?vs) ee sE sample 0
          = (18 \<le> unat (0 :: u8) + length (filter (\<lambda>v. v < sample) ?vs))"
    using assms by (intro inTopQuartile_loop_counts) auto
  then show ?thesis
    by (simp add: inTopQuartile_def filter_map comp_def)
qed

lemma inOutlierQuartile_all_equal:
  assumes eq: "\<forall>h < 24. ee (EE_STATS_START_ADDR L statsSet + h) = x"
    and hh: "unat (if hour > 23 then hourNow else hour) < 24"
  shows "\<not> inOutlierQuartile L ee hourNow inTop statsSet hour"
proof (cases "x = 0xFF")
  case True
  with eq hh show ?thesis
    by (simp add: inOutlierQuartile_def Let_def STATS_UNSET_INT_def)
next
  case False
  let ?ss = "EE_STATS_START_ADDR L statsSet"
  from eq hh have sample: "ee (?ss + unat (if hour > 23 then hourNow else hour)) = x"
    by blast
  from eq False have full: "\<forall>h < 24. ee (?ss + h) \<noteq> 0xFF" by simp
  have none: "filter (\<lambda>h. x < ee (?ss + h)) [0..<24] = []"
    "filter (\<lambda>h. ee (?ss + h) < x) [0..<24] = []"
    using eq by (simp_all add: filter_empty_conv)
  have "\<not> inBottomQuartile ee ?ss x" "\<not> inTopQuartile ee ?ss x"
    using inBottomQuartile_full_set[OF full, of x] inTopQuartile_full_set[OF full, of x] none
    by simp_all
  with sample show ?thesis
    by (simp add: inOutlierQuartile_def Let_def)
qed

text \<open>
  Claim C5. The claim says that the quartile query is false whenever any of the 24 hourly
  entries is unset. The loops return true as soon as the 18th qualifying value has been
  counted, before the remaining entries are read: on a set whose hours 0 to 18 have been
  sampled and whose hours 19 to 23 are still unset, the queries for hour 18 are true.
\<close>

theorem quartile_query_true_with_unset_entries:
  "partialDayLow 23 = 0xFF \<and> partialDayHigh 23 = 0xFF \<and>
   inBottomQuartile partialDayLow 0 5 \<and>
   inTopQuartile partialDayHigh 0 20 \<and>
   inOutlierQuartile oneSetLayout partialDayLow 18 0 0 0xFF \<and>
   inOutlierQuartile oneSetLayout partialDayHigh 18 1 0 18"
  by code_simp

section \<open>Target temperature policy and the call for heat\<close>

text \<open>
  Claim C6. In WARM mode, outside BAKE, whenever the setback condition holds, the target
  computed is the WARM target less the chosen setback, floored at the FROST target: it is
  never below the FROST target, whatever the occupancy, light, schedule and bias inputs.
\<close>

theorem warm_setback_target_not_below_frost:
  assumes "inWarmMode E" "\<not> inBakeModeNow E" "setbackApplies K E"
  shows "FROSTTargetC E \<le> computeTargetTemp K E \<and>
     computeTargetTemp K E
       = fnmax (word_of_int (uint (WARMTargetC E) - chosenSetback K E)) (FROSTTargetC E)"
  using assms by (auto simp: computeTargetTemp_def fnmax_def Let_def)

theorem warm_setback_target_not_below_frost_witness:
  "inWarmMode longVacantReadings \<and> \<not> inBakeModeNow longVacantReadings \<and>
   setbackApplies targetConsts longVacantReadings \<and>
   FROSTTargetC longVacantReadings \<le> computeTargetTemp targetConsts longVacantReadings \<and>
   computeTargetTemp targetConsts longVacantReadings = 14"
proof -
  have w: "inWarmMode longVacantReadings" by code_simp
  have b: "\<not> inBakeModeNow longVacantReadings" by code_simp
  have s: "setbackApplies targetConsts longVacantReadings" by code_simp
  have t: "computeTargetTemp targetConsts longVacantReadings = 14" by code_simp
  from warm_setback_target_not_below_frost[OF w b s] w b s t show ?thesis by simp
qed

text \<open>
  Claim C8. After \<open>computeTargetTemperature\<close> the calling-for-heat flag is the test
  "target temperature in whole degrees \<open>\<ge>\<close> reference temperature in 16ths shifted right
  by 4", the reference temperature being the measured temperature plus the offset of 8
  sixteenths (0.5 C), and the target being the one just computed.
\<close>

theorem callingForHeat_after_computeTargetTemperature:
  "callingForHeat (computeTargetTemperature K E m)
     = (uint (targetTempC (inputState (computeTargetTemperature K E m)))
          \<ge> drop_bit 4 (refTempC16 (inputState (computeTargetTemperature K E m)))) \<and>
   refTempC16 (inputState (computeTargetTemperature K E m)) = TemperatureC16 E + refTempOffsetC16 \<and>
   refTempOffsetC16 = 8 \<and>
   targetTempC (inputState (computeTargetTemperature K E m)) = computeTargetTemp K E"
  by (simp add: computeTargetTemperature_def setReferenceTemperatures_def Let_def refTempOffsetC16_def)

theorem callingForHeat_after_computeTargetTemperature_witness:
  "computeTargetTemp targetConsts longVacantReadings = 14 \<and>
   TemperatureC16 longVacantReadings = 300 \<and>
   refTempC16 (inputState (computeTargetTemperature targetConsts longVacantReadings idleValve))
     = 308 \<and>
   targetTempC (inputState (computeTargetTemperature targetConsts longVacantReadings idleValve))
     = 14 \<and>
   \<not> callingForHeat (computeTargetTemperature targetConsts longVacantReadings idleValve)"
proof -
  have t: "computeTargetTemp targetConsts longVacantReadings = 14" by code_simp
  have m: "TemperatureC16 longVacantReadings = 300" by (simp add: longVacantReadings_def)
  from callingForHeat_after_computeTargetTemperature[of targetConsts longVacantReadings idleValve]
    t m
  show ?thesis by (simp add: drop_bit_eq_div refTempOffsetC16_def)
qed

section \<open>The valve computation, branch by branch\<close>

text \<open>
  Each branch of the computation returns one of a few values, each under the guards that
  lead to it. The three rules below list them: a property holds of the branch's result
  when it holds of every value the branch can return.
\<close>

lemmas slew_consts = TRV_MIN_SLEW_PC_def TRV_MAX_SLEW_PC_PER_MIN_def TRV_SLEW_PC_PER_MIN_FAST_def

lemma closeWhenOverTarget_leaves:
  assumes "P v"
    and "v = 0 \<or> \<not> dontTurndown rs \<Longrightarrow> P 0"
    and "v \<noteq> 0 \<Longrightarrow> \<not> dontTurndown rs \<Longrightarrow> P (v - 1)"
    and "\<not> dontTurndown rs \<Longrightarrow>
         uint v > constrain (uint (if minPCOpen i > 0 then minPCOpen i - 1 else 0)
                               + TRV_SLEW_PC_PER_MIN_FAST)
                    TRV_SLEW_PC_PER_MIN_FAST (uint (maxPCOpen i)) \<Longrightarrow>
         P (v - word_of_int TRV_SLEW_PC_PER_MIN_FAST)"
    and "v \<noteq> 0 \<Longrightarrow> \<not> dontTurndown rs \<Longrightarrow> \<not> v < minPCOpen i \<Longrightarrow>
         P (if minPCOpen i > 0 then minPCOpen i - 1 else 0)"
  shows "P (closeWhenOverTarget K v i rs)"
  unfolding closeWhenOverTarget_def Let_def
  using assms by (simp split del: if_split add: if_split[where P = P])

lemma openWhenUnderTarget_leaves:
  assumes "\<not> v < maxPCOpen i \<or> inBakeMode i \<Longrightarrow> P (maxPCOpen i)"
    and "v < maxPCOpen i \<Longrightarrow> \<not> inBakeMode i \<Longrightarrow> dontTurnup rs \<Longrightarrow> P v"
    and "v < maxPCOpen i \<Longrightarrow> \<not> inBakeMode i \<Longrightarrow> \<not> dontTurnup rs \<Longrightarrow>
         glacial i \<or> minPCOpen i \<le> v \<Longrightarrow> P (v + 1)"
    and "\<And>slewRate. v < maxPCOpen i \<Longrightarrow> \<not> inBakeMode i \<Longrightarrow> \<not> dontTurnup rs \<Longrightarrow>
         \<not> glacial i \<Longrightarrow> slewRate = 5 \<or> slewRate = 10 \<Longrightarrow> v < fnmax slewRate (minPCOpen i) \<Longrightarrow>
         P (fnmax slewRate (minPCOpen i))"
    and "\<And>slewRate. v < maxPCOpen i \<Longrightarrow> \<not> inBakeMode i \<Longrightarrow> \<not> dontTurnup rs \<Longrightarrow>
         \<not> glacial i \<Longrightarrow> slewRate = 5 \<or> slewRate = 10 \<Longrightarrow> \<not> v < fnmax slewRate (minPCOpen i) \<Longrightarrow>
         P (fnmin (v + slewRate) (maxPCOpen i))"
  shows "P (openWhenUnderTarget K v i rs)"
proof -
  define slewRate :: u8 where
    "slewRate = (if uint v \<ge> DEFAULT_VALVE_PC_MODERATELY_OPEN K \<or>
                    adjustedTempC K i rs = uint (targetTempC i) - 1
                 then word_of_int TRV_MAX_SLEW_PC_PER_MIN
                 else word_of_int TRV_SLEW_PC_PER_MIN_FAST)"
  define beGlacial where
    "beGlacial = (glacial i \<or>
                  (v \<ge> minPCOpen i \<and>
                   ((widenDeadband i \<and> hasEcoBias i \<and>
                     adjustedTempC K i rs
                       \<ge> uint (word_of_int
                                  (fnmax (uint (targetTempC i) - VALVE_SETBACK_FULL K)
                                         (VALVE_MIN_TARGET_C K)) :: u8)) \<or>
                    (isFiltering rs \<and> getRawDelta rs > 0))))"
  have sr: "slewRate = 5 \<or> slewRate = 10"
    by (simp add: slewRate_def slew_consts)
  have bg: "beGlacial \<Longrightarrow> glacial i \<or> minPCOpen i \<le> v"
    and nbg: "\<not> beGlacial \<Longrightarrow> \<not> glacial i"
    by (auto simp: beGlacial_def)
  have eq: "openWhenUnderTarget K v i rs =
      (if v < maxPCOpen i then
         (if inBakeMode i then maxPCOpen i
          else if dontTurnup rs then v
          else if beGlacial then v + 1
          else if v < fnmax slewRate (minPCOpen i) then fnmax slewRate (minPCOpen i)
          else fnmin (v + slewRate) (maxPCOpen i))
       else maxPCOpen i)"
    unfolding openWhenUnderTarget_def Let_def slewRate_def beGlacial_def by (rule refl)
  show ?thesis
    unfolding eq using assms sr bg nbg
    by (simp split del: if_split add: if_split[where P = P])
qed

lemma regulateNearTarget_leaves:
  fixes K v i rs
  defines "tp \<equiv> constrain ((16 - (word_of_int (adjustedTempC16 K i rs AND 0xF) :: u8)) * 6)
                    (minPCOpen i) (maxPCOpen i)"
  assumes "P v"
    and "tp < v \<Longrightarrow> \<not> dontTurndown rs \<Longrightarrow> P (v - 1)"
    and "tp < v \<Longrightarrow> \<not> dontTurndown rs \<Longrightarrow> uint (v - tp) > TRV_SLEW_PC_PER_MIN_FAST \<Longrightarrow>
         7 \<le> v - tp \<Longrightarrow> P (v - word_of_int TRV_SLEW_PC_PER_MIN_FAST)"
    and "tp \<noteq> v \<Longrightarrow> (tp < v \<longrightarrow> \<not> dontTurndown rs) \<Longrightarrow>
         (\<not> tp < v \<longrightarrow> \<not> dontTurnup rs \<and> \<not> inBakeMode i) \<Longrightarrow> P tp"
    and "\<not> tp < v \<Longrightarrow> tp \<noteq> v \<Longrightarrow> inBakeMode i \<Longrightarrow> P (maxPCOpen i)"
    and "\<not> tp < v \<Longrightarrow> tp \<noteq> v \<Longrightarrow> \<not> inBakeMode i \<Longrightarrow> \<not> dontTurnup rs \<Longrightarrow> P (v + 1)"
    and "\<And>maxSlew. \<not> tp < v \<Longrightarrow> tp \<noteq> v \<Longrightarrow> \<not> inBakeMode i \<Longrightarrow> \<not> dontTurnup rs \<Longrightarrow>
         maxSlew = 5 \<or> maxSlew = 10 \<Longrightarrow> tp - v > maxSlew \<Longrightarrow> P (v + maxSlew)"
  shows "P (regulateNearTarget K v i rs)"
proof -
  define lsbits :: u8 where "lsbits = word_of_int (adjustedTempC16 K i rs AND 0xF)"
  define minAbsSlew :: u8 where
    "minAbsSlew = fnmax (1 + 6)
                    (word_of_int
                       (if widenDeadband i
                        then max (min (DEFAULT_VALVE_PC_MODERATELY_OPEN K div 2)
                                      (max TRV_MAX_SLEW_PC_PER_MIN (2 * TRV_MIN_SLEW_PC)))
                                 (2 + TRV_MIN_SLEW_PC)
                        else TRV_MIN_SLEW_PC))"
  define closeGlacial where
    "closeGlacial = (glacial i \<or>
                           ((widenDeadband i \<or> isFiltering rs) \<and>
                            uint v \<le> DEFAULT_VALVE_PC_MODERATELY_OPEN K) \<or>
                           lsbits < 8)"
  define openGlacial where
    "openGlacial = (glacial i \<or> widenDeadband i \<or> lsbits \<ge> 8 \<or>
                             (lsbits \<ge> 4 \<and>
                              uint v \<ge> DEFAULT_VALVE_PC_MODERATELY_OPEN K))"
  define maxSlew :: u8 where
    "maxSlew = (if \<not> hasEcoBias i
                                  then word_of_int TRV_SLEW_PC_PER_MIN_FAST
                                  else word_of_int TRV_MAX_SLEW_PC_PER_MIN)"
  have ms: "maxSlew = 5 \<or> maxSlew = 10" by (simp add: maxSlew_def slew_consts)
  have mas: "7 \<le> minAbsSlew" by (auto simp: minAbsSlew_def fnmax_def)
  have eq: "regulateNearTarget K v i rs =
     (if tp \<noteq> v then
        (if tp < v then
           (if v - tp < minAbsSlew then v
            else if dontTurndown rs then v
            else if getRawDelta rs \<le> 0 then v
            else if closeGlacial then v - 1
            else if uint (v - tp) > TRV_SLEW_PC_PER_MIN_FAST
            then v - word_of_int TRV_SLEW_PC_PER_MIN_FAST
            else tp)
         else if inBakeMode i then maxPCOpen i
         else
           (if tp - v < minAbsSlew then v
            else if dontTurnup rs then v
            else if getRawDelta rs > 0 then v
            else if lsbits \<ge> (if widenDeadband i then 8 else 12) then v
            else if openGlacial then v + 1
            else if tp - v > maxSlew then v + maxSlew
            else tp))
      else v)"
    unfolding regulateNearTarget_def Let_def tp_def lsbits_def minAbsSlew_def closeGlacial_def
      openGlacial_def maxSlew_def
    by (rule refl)
  have seven: "\<not> v - tp < minAbsSlew \<Longrightarrow> 7 \<le> v - tp"
    using mas by (meson not_less order_trans)
  show ?thesis
    unfolding eq using assms(2-) ms seven
    by (simp split del: if_split add: if_split[where P = P])
qed

section \<open>Bounds on one computation of the valve position\<close>

lemma u8_pred_le: "(v :: u8) \<noteq> 0 \<Longrightarrow> v - 1 \<le> v"
  using unat_gt_0[of v] by (simp add: word_le_nat_alt unat_sub_if')

lemma u8_sub_le: "(d :: u8) \<le> v \<Longrightarrow> v - d \<le> v"
  by (simp add: word_le_nat_alt unat_sub_if')

lemma u8_pred_lt: "(0 :: u8) < m \<Longrightarrow> m \<le> v \<Longrightarrow> m - 1 \<le> v"
  by (simp add: word_le_nat_alt word_less_nat_alt unat_sub_if')

lemma u8_succ_le: "(v :: u8) < t \<Longrightarrow> v \<le> v + 1 \<and> v + 1 \<le> t"
  using unat_u8_lt[of t] by (simp add: word_le_nat_alt word_less_nat_alt unat_word_ariths)

lemma u8_add_below: "(s :: u8) < t - v \<Longrightarrow> v < t \<Longrightarrow> v \<le> v + s \<and> v + s \<le> t"
  using unat_u8_lt[of t] by (simp add: word_le_nat_alt word_less_nat_alt unat_word_ariths unat_sub_if')

lemma u8_add_small: "(v :: u8) < m \<Longrightarrow> m \<le> 100 \<Longrightarrow> s \<le> 10 \<Longrightarrow> v \<le> v + s"
  by (simp add: word_le_nat_alt word_less_nat_alt unat_word_ariths)

lemma fast_slew_guard:
  assumes "10 \<le> (m :: u8)" "uint (v :: u8) > constrain (uint (l :: u8) + 10) 10 (uint m)"
  shows "10 \<le> v"
proof -
  have "0 \<le> uint l" by simp
  moreover have "10 \<le> uint m" using assms(1) by (simp add: word_le_def)
  ultimately have "10 \<le> constrain (uint l + 10) 10 (uint m)"
    by (auto simp: constrain_def)
  with assms(2) show ?thesis by (simp add: word_le_def)
qed

lemma fnmin_is_min: "fnmin a b = min a (b :: 'a :: linorder)"
  by (auto simp: fnmin_def min_def)

lemma fnmax_is_max: "fnmax a b = max a (b :: 'a :: linorder)"
  by (auto simp: fnmax_def max_def)

lemma constrain_between:
  "(lo :: 'a :: linorder) \<le> hi \<Longrightarrow> lo \<le> constrain x lo hi \<and> constrain x lo hi \<le> hi"
  by (auto simp: constrain_def)

lemma close_le:
  assumes "10 \<le> maxPCOpen i"
  shows "closeWhenOverTarget K v i rs \<le> v"
proof (rule closeWhenOverTarget_leaves)
  show "v \<le> v" "0 \<le> v" by simp_all
  show "v \<noteq> 0 \<Longrightarrow> v - 1 \<le> v" by (rule u8_pred_le)
  show "v - word_of_int TRV_SLEW_PC_PER_MIN_FAST \<le> v"
    if "uint v > constrain (uint (if minPCOpen i > 0 then minPCOpen i - 1 else 0)
                               + TRV_SLEW_PC_PER_MIN_FAST)
                    TRV_SLEW_PC_PER_MIN_FAST (uint (maxPCOpen i))"
    using fast_slew_guard[OF assms, where v = v] that by (simp add: slew_consts u8_sub_le)
  show "(if minPCOpen i > 0 then minPCOpen i - 1 else 0) \<le> v" if "\<not> v < minPCOpen i"
    using that by (auto intro: u8_pred_lt)
qed

lemma close_deferred:
  assumes "dontTurndown rs"
  shows "closeWhenOverTarget K v i rs = v"
  by (rule closeWhenOverTarget_leaves) (use assms in auto)


lemma open_never_closes:
  assumes "v \<le> maxPCOpen i" "maxPCOpen i \<le> 100"
  shows "v \<le> openWhenUnderTarget K v i rs"
proof (rule openWhenUnderTarget_leaves)
  show "v \<le> maxPCOpen i" "v \<le> v" by (simp_all add: assms)
  show "v \<le> v + 1" if "v < maxPCOpen i" using u8_succ_le[OF that] by simp
  show "v \<le> fnmax slewRate (minPCOpen i)" if "v < fnmax slewRate (minPCOpen i)" for slewRate
    using that by simp
  show "v \<le> fnmin (v + slewRate) (maxPCOpen i)"
    if "v < maxPCOpen i" "slewRate = 5 \<or> slewRate = 10" for slewRate
  proof -
    have "v \<le> v + slewRate" using that assms(2) by (intro u8_add_small[of v "maxPCOpen i"]) auto
    with that(1) show ?thesis by (simp add: fnmin_is_min)
  qed
qed

lemma open_at_most_max:
  assumes "minPCOpen i \<le> maxPCOpen i" "10 \<le> maxPCOpen i"
  shows "openWhenUnderTarget K v i rs \<le> maxPCOpen i"
proof (rule openWhenUnderTarget_leaves)
  show "maxPCOpen i \<le> maxPCOpen i" by simp
  show "v \<le> maxPCOpen i" if "v < maxPCOpen i" using that by simp
  show "v + 1 \<le> maxPCOpen i" if "v < maxPCOpen i" using u8_succ_le[OF that] by simp
  have five: "5 \<le> maxPCOpen i" using assms(2) by (simp add: word_le_nat_alt)
  show "fnmax slewRate (minPCOpen i) \<le> maxPCOpen i" if "slewRate = 5 \<or> slewRate = 10" for slewRate
    using that assms five by (auto simp: fnmax_is_max)
  show "fnmin (v + slewRate) (maxPCOpen i) \<le> maxPCOpen i" for slewRate
    by (simp add: fnmin_is_min)
qed

lemma open_deferred:
  assumes "dontTurnup rs" "\<not> inBakeMode i"
  shows "openWhenUnderTarget K v i rs \<le> v"
  by (rule openWhenUnderTarget_leaves) (use assms in auto)

lemma open_above_max:
  assumes "\<not> v \<le> maxPCOpen i"
  shows "openWhenUnderTarget K v i rs = maxPCOpen i"
  by (rule openWhenUnderTarget_leaves[where P = "\<lambda>r. r = maxPCOpen i"])
    (use assms in auto)

lemma open_reaches_min:
  assumes "minPCOpen i \<le> maxPCOpen i" "maxPCOpen i \<le> 100"
    and "inBakeMode i \<or> minPCOpen i \<le> v \<or> (\<not> dontTurnup rs \<and> \<not> glacial i)"
  shows "minPCOpen i \<le> openWhenUnderTarget K v i rs"
proof (cases "minPCOpen i \<le> v")
  case True
  show ?thesis
  proof (cases "v \<le> maxPCOpen i")
    case le: True
    from True open_never_closes[OF le assms(2)] show ?thesis by (rule order_trans)
  next
    case False
    with assms(1) open_above_max[of v i K rs] show ?thesis by simp
  qed
next
  case False
  show ?thesis
  proof (rule openWhenUnderTarget_leaves)
    show "minPCOpen i \<le> maxPCOpen i" by (rule assms(1))
    show "minPCOpen i \<le> v" if "\<not> inBakeMode i" "dontTurnup rs"
      using that assms(3) False by simp
    show "minPCOpen i \<le> v + 1" if "\<not> inBakeMode i" "\<not> dontTurnup rs" "glacial i \<or> minPCOpen i \<le> v"
      using that assms(3) False by simp
    show "minPCOpen i \<le> fnmax slewRate (minPCOpen i)" for slewRate
      by (simp add: fnmax_is_max)
    show "minPCOpen i \<le> fnmin (v + slewRate) (maxPCOpen i)"
      if "\<not> v < fnmax slewRate (minPCOpen i)" for slewRate
      using that False by (simp add: fnmax_is_max not_less)
  qed
qed


text \<open>The proportional target lies between the two configured percentages.\<close>

lemma regulate_at_most:
  assumes "minPCOpen i \<le> maxPCOpen i" "maxPCOpen i \<le> B" "v \<le> B"
  shows "regulateNearTarget K v i rs \<le> B"
proof (rule regulateNearTarget_leaves)
  let ?tp = "constrain ((16 - (word_of_int (adjustedTempC16 K i rs AND 0xF) :: u8)) * 6)
                    (minPCOpen i) (maxPCOpen i)"
  have "?tp \<le> maxPCOpen i" using constrain_between[OF assms(1)] by blast
  with assms(2) have tp: "?tp \<le> B" by (meson order_trans)
  show "v \<le> B" by (rule assms(3))
  show "v - 1 \<le> B" if "?tp < v"
  proof -
    from that have "v \<noteq> 0" by auto
    then have "v - 1 \<le> v" by (rule u8_pred_le)
    with assms(3) show ?thesis by (meson order_trans)
  qed
  show "v - word_of_int TRV_SLEW_PC_PER_MIN_FAST \<le> B"
    if "?tp < v" "uint (v - ?tp) > TRV_SLEW_PC_PER_MIN_FAST"
  proof -
    have "v - ?tp \<le> v" using that(1) by (intro u8_sub_le) simp
    moreover have "10 \<le> v - ?tp" using that(2) by (simp add: slew_consts word_le_def)
    ultimately have "10 \<le> v" by (meson order_trans)
    then have "v - 10 \<le> v" by (rule u8_sub_le)
    with assms(3) have "v - 10 \<le> B" by (meson order_trans)
    then show ?thesis by (simp add: slew_consts)
  qed
  show "?tp \<le> B" by (rule tp)
  show "maxPCOpen i \<le> B" by (rule assms(2))
  show "v + 1 \<le> B" if "\<not> ?tp < v" "?tp \<noteq> v"
  proof -
    from that have "v < ?tp" by auto
    from u8_succ_le[OF this] tp show ?thesis by (meson order_trans)
  qed
  show "v + maxSlew \<le> B" if "\<not> ?tp < v" "?tp \<noteq> v" "?tp - v > maxSlew" for maxSlew
  proof -
    from that have "v < ?tp" by auto
    from u8_add_below[OF that(3) this] tp show ?thesis by (meson order_trans)
  qed
qed

lemma regulate_deferred_down:
  assumes "dontTurndown rs" "minPCOpen i \<le> maxPCOpen i"
  shows "v \<le> regulateNearTarget K v i rs"
proof (rule regulateNearTarget_leaves)
  let ?tp = "constrain ((16 - (word_of_int (adjustedTempC16 K i rs AND 0xF) :: u8)) * 6)
                    (minPCOpen i) (maxPCOpen i)"
  have tp: "?tp \<le> maxPCOpen i" using constrain_between[OF assms(2)] by blast
  show "v \<le> v" by simp
  show "v \<le> v - 1" if "\<not> dontTurndown rs" using that assms(1) by simp
  show "v \<le> v - word_of_int TRV_SLEW_PC_PER_MIN_FAST" if "\<not> dontTurndown rs"
    using that assms(1) by simp
  show "v \<le> ?tp" if "?tp < v \<longrightarrow> \<not> dontTurndown rs"
    using that assms(1) by auto
  show "v \<le> maxPCOpen i" if "\<not> ?tp < v"
    using that tp by auto
  show "v \<le> v + 1" if "\<not> ?tp < v" "?tp \<noteq> v"
  proof -
    from that have "v < ?tp" by auto
    from u8_succ_le[OF this] show ?thesis by simp
  qed
  show "v \<le> v + maxSlew" if "\<not> ?tp < v" "?tp \<noteq> v" "?tp - v > maxSlew" for maxSlew
  proof -
    from that have "v < ?tp" by auto
    from u8_add_below[OF that(3) this] show ?thesis by simp
  qed
qed

lemma regulate_deferred_up:
  assumes "dontTurnup rs" "\<not> inBakeMode i"
  shows "regulateNearTarget K v i rs \<le> v"
proof (rule regulateNearTarget_leaves)
  let ?tp = "constrain ((16 - (word_of_int (adjustedTempC16 K i rs AND 0xF) :: u8)) * 6)
                    (minPCOpen i) (maxPCOpen i)"
  show "v \<le> v" by simp
  show "v - 1 \<le> v" if "?tp < v"
  proof -
    from that have "v \<noteq> 0" by auto
    then show ?thesis by (rule u8_pred_le)
  qed
  show "v - word_of_int TRV_SLEW_PC_PER_MIN_FAST \<le> v"
    if "?tp < v" "uint (v - ?tp) > TRV_SLEW_PC_PER_MIN_FAST"
  proof -
    have "v - ?tp \<le> v" using that(1) by (intro u8_sub_le) simp
    moreover have "10 \<le> v - ?tp" using that(2) by (simp add: slew_consts word_le_def)
    ultimately have "10 \<le> v" by (meson order_trans)
    then have "v - 10 \<le> v" by (rule u8_sub_le)
    then show ?thesis by (simp add: slew_consts)
  qed
  show "?tp \<le> v" if "?tp \<noteq> v" "\<not> ?tp < v \<longrightarrow> \<not> dontTurnup rs \<and> \<not> inBakeMode i"
    using that assms(1) by auto
  show "maxPCOpen i \<le> v" if "inBakeMode i" using that assms(2) by simp
  show "v + 1 \<le> v" if "\<not> dontTurnup rs" using that assms(1) by simp
  show "v + maxSlew \<le> v" if "\<not> dontTurnup rs" for maxSlew using that assms(1) by simp
qed

text \<open>The three facts about one computation on which the hysteresis argument rests.\<close>

lemma compute_no_close_while_deferred:
  assumes "dontTurndown rs" "minPCOpen i \<le> maxPCOpen i" "maxPCOpen i \<le> 100"
    "v \<le> maxPCOpen i"
  shows "v \<le> computeRequiredTRVPercentOpen K v i rs"
  unfolding computeRequiredTRVPercentOpen_def
  using open_never_closes[OF assms(4,3), of K rs] close_deferred[OF assms(1), of K v i]
    regulate_deferred_down[OF assms(1,2), of v K]
  by simp

lemma compute_no_open_while_deferred:
  assumes "dontTurnup rs" "\<not> inBakeMode i" "10 \<le> maxPCOpen i"
  shows "computeRequiredTRVPercentOpen K v i rs \<le> v"
  unfolding computeRequiredTRVPercentOpen_def
  using open_deferred[OF assms(1,2), of K v] close_le[OF assms(3), of K v rs]
    regulate_deferred_up[OF assms(1,2), of K v]
  by simp

lemma compute_at_most_max:
  assumes "minPCOpen i \<le> maxPCOpen i" "10 \<le> maxPCOpen i" "v \<le> maxPCOpen i"
  shows "computeRequiredTRVPercentOpen K v i rs \<le> maxPCOpen i"
proof -
  have "closeWhenOverTarget K v i rs \<le> maxPCOpen i"
    using close_le[OF assms(2), of K v rs] assms(3) by (meson order_trans)
  then show ?thesis
    unfolding computeRequiredTRVPercentOpen_def
    using open_at_most_max[OF assms(1,2), of K v rs]
      regulate_at_most[OF assms(1) order_refl assms(3), of K rs]
    by simp
qed

section \<open>The valve stays within its configured bounds\<close>

text \<open>
  Claim C1, as amended. For a call with a current position of at most 100 and with
  \<open>minPCOpen \<le> maxPCOpen\<close> and \<open>10 \<le> maxPCOpen \<le> 100\<close>: when the adjusted
  temperature is strictly below the target, the new position is at most \<open>maxPCOpen\<close>
  and at least the current position capped at \<open>maxPCOpen\<close>, and it is at least
  \<open>minPCOpen\<close> whenever BAKE mode is on, or the valve is already at least that far
  open, or neither the deferral of re-opening nor the glacial flag applies; and in every
  such call the new position is at most 100.
\<close>

theorem valve_percent_bounds:
  assumes "minPCOpen i \<le> maxPCOpen i" "10 \<le> maxPCOpen i" "maxPCOpen i \<le> 100"
    "valvePCOpen \<le> 100"
  shows
    "(adjustedTempC K i rs < uint (targetTempC i) \<longrightarrow>
        computeRequiredTRVPercentOpen K valvePCOpen i rs \<le> maxPCOpen i \<and>
        min valvePCOpen (maxPCOpen i) \<le> computeRequiredTRVPercentOpen K valvePCOpen i rs \<and>
        (inBakeMode i \<or> minPCOpen i \<le> valvePCOpen \<or> (\<not> dontTurnup rs \<and> \<not> glacial i) \<longrightarrow>
           minPCOpen i \<le> computeRequiredTRVPercentOpen K valvePCOpen i rs)) \<and>
     computeRequiredTRVPercentOpen K valvePCOpen i rs \<le> 100"
proof (intro conjI impI)
  assume under: "adjustedTempC K i rs < uint (targetTempC i)"
  then have eq: "computeRequiredTRVPercentOpen K valvePCOpen i rs
                   = openWhenUnderTarget K valvePCOpen i rs"
    by (simp add: computeRequiredTRVPercentOpen_def)
  show "computeRequiredTRVPercentOpen K valvePCOpen i rs \<le> maxPCOpen i"
    unfolding eq by (rule open_at_most_max[OF assms(1,2)])
  show "min valvePCOpen (maxPCOpen i) \<le> computeRequiredTRVPercentOpen K valvePCOpen i rs"
  proof (cases "valvePCOpen \<le> maxPCOpen i")
    case True
    with open_never_closes[OF True assms(3), of K rs] show ?thesis
      unfolding eq by (simp add: min_def)
  next
    case False
    with open_above_max[OF False, of K rs] show ?thesis
      unfolding eq by (simp add: min_def)
  qed
  show "minPCOpen i \<le> computeRequiredTRVPercentOpen K valvePCOpen i rs"
    if "inBakeMode i \<or> minPCOpen i \<le> valvePCOpen \<or> (\<not> dontTurnup rs \<and> \<not> glacial i)"
    unfolding eq by (rule open_reaches_min[OF assms(1,3) that])
next
  have o: "openWhenUnderTarget K valvePCOpen i rs \<le> 100"
    using open_at_most_max[OF assms(1,2), of K valvePCOpen rs] assms(3) by (meson order_trans)
  have c: "closeWhenOverTarget K valvePCOpen i rs \<le> 100"
    using close_le[OF assms(2), of K valvePCOpen rs] assms(4) by (meson order_trans)
  have r: "regulateNearTarget K valvePCOpen i rs \<le> 100"
    by (rule regulate_at_most[OF assms(1,3,4)])
  from o c r show "computeRequiredTRVPercentOpen K valvePCOpen i rs \<le> 100"
    by (simp add: computeRequiredTRVPercentOpen_def)
qed

theorem valve_percent_bounds_witness:
  "minPCOpen coldRoomInput \<le> maxPCOpen coldRoomInput \<and>
   10 \<le> maxPCOpen coldRoomInput \<and> maxPCOpen coldRoomInput \<le> 100 \<and> (0 :: u8) \<le> 100 \<and>
   adjustedTempC valveConsts coldRoomInput freshState < uint (targetTempC coldRoomInput) \<and>
   \<not> dontTurnup freshState \<and> \<not> glacial coldRoomInput \<and>
   computeRequiredTRVPercentOpen valveConsts 0 coldRoomInput freshState
     \<le> maxPCOpen coldRoomInput \<and>
   minPCOpen coldRoomInput
     \<le> computeRequiredTRVPercentOpen valveConsts 0 coldRoomInput freshState \<and>
   computeRequiredTRVPercentOpen valveConsts 0 coldRoomInput freshState \<le> 100"
proof -
  have h: "minPCOpen coldRoomInput \<le> maxPCOpen coldRoomInput"
    "10 \<le> maxPCOpen coldRoomInput" "maxPCOpen coldRoomInput \<le> 100" "(0 :: u8) \<le> 100"
    by (simp_all add: coldRoomInput_def)
  have u: "adjustedTempC valveConsts coldRoomInput freshState < uint (targetTempC coldRoomInput)"
    by code_simp
  have n: "\<not> dontTurnup freshState" "\<not> glacial coldRoomInput"
    by (simp_all add: dontTurnup_def freshState_def coldRoomInput_def)
  from valve_percent_bounds[OF h, of valveConsts freshState] u n h
  show ?thesis by blast
qed

text \<open>
  Claim C1 as stated fails. In a cold room (18 C against a target of 21 C) with the valve
  shut soon after a closing move, the re-opening is deferred and the computation returns
  0, below the minimum of 10 percent. And a call with a current position of 200 in the
  middle of the proportional band returns 200.
\<close>

theorem valve_percent_bounds_counterexample:
  "adjustedTempC valveConsts coldRoomInput recentlyClosedState < uint (targetTempC coldRoomInput) \<and>
   \<not> (minPCOpen coldRoomInput
        \<le> computeRequiredTRVPercentOpen valveConsts 0 coldRoomInput recentlyClosedState) \<and>
   \<not> (computeRequiredTRVPercentOpen valveConsts 200 midBandInput recentlyClosedState \<le> 100)"
  by code_simp

text \<open>
  Claim C2. When the input state has the BAKE flag set and the adjusted temperature is
  strictly below the target, the computation returns \<open>maxPCOpen\<close>, whatever the
  current position and the retained state (the hysteresis countdowns included).
\<close>

theorem bake_below_target_opens_to_max:
  assumes "inBakeMode i" "adjustedTempC K i rs < uint (targetTempC i)"
  shows "computeRequiredTRVPercentOpen K valvePCOpen i rs = maxPCOpen i"
  using assms by (simp add: computeRequiredTRVPercentOpen_def openWhenUnderTarget_def)

theorem bake_below_target_opens_to_max_witness:
  "inBakeMode coldRoomBakeInput \<and>
   adjustedTempC valveConsts coldRoomBakeInput recentlyClosedState
     < uint (targetTempC coldRoomBakeInput) \<and>
   dontTurnup recentlyClosedState \<and>
   computeRequiredTRVPercentOpen valveConsts 30 coldRoomBakeInput recentlyClosedState = 100"
proof -
  have b: "inBakeMode coldRoomBakeInput"
    by (simp add: coldRoomBakeInput_def)
  have u: "adjustedTempC valveConsts coldRoomBakeInput recentlyClosedState
             < uint (targetTempC coldRoomBakeInput)"
    by code_simp
  have d: "dontTurnup recentlyClosedState"
    by (simp add: dontTurnup_def recentlyClosedState_def)
  have m: "maxPCOpen coldRoomBakeInput = 100"
    by (simp add: coldRoomBakeInput_def coldRoomInput_def)
  from bake_below_target_opens_to_max[OF b u, of 30] b u d m
  show ?thesis by simp
qed

section \<open>Hysteresis over successive ticks\<close>

lemma tickFilterAndTimers_turnup:
  "valveTurnupCountdownM (tickFilterAndTimers K i rs)
     = (if valveTurnupCountdownM rs > 0 then valveTurnupCountdownM rs - 1
        else valveTurnupCountdownM rs)"
  by (simp add: tickFilterAndTimers_def Let_def)

lemma tickFilterAndTimers_turndown:
  "valveTurndownCountdownM (tickFilterAndTimers K i rs)
     = (if valveTurndownCountdownM rs > 0 then valveTurndownCountdownM rs - 1
        else valveTurndownCountdownM rs)"
  by (simp add: tickFilterAndTimers_def Let_def)

lemma fst_tick:
  "fst (tick K v i rs) = computeRequiredTRVPercentOpen K v i (tickFilterAndTimers K i rs)"
  by (simp add: tick_def Let_def)

lemma tick_turnup_after:
  "valveTurnupCountdownM (snd (tick K v i rs))
     = (if v < fst (tick K v i rs) then VALVE_RECLOSE_DELAY_M K
        else valveTurnupCountdownM (tickFilterAndTimers K i rs))"
  by (simp add: tick_def Let_def valveTurnup_def valveTurndown_def)

lemma tick_turndown_after:
  "valveTurndownCountdownM (snd (tick K v i rs))
     = (if fst (tick K v i rs) < v then VALVE_REOPEN_DELAY_M K
        else valveTurndownCountdownM (tickFilterAndTimers K i rs))"
  by (auto simp: tick_def Let_def valveTurnup_def valveTurndown_def)

lemma u8_countdown_step:
  "unat (c :: u8) \<le> unat (if c > 0 then c - 1 else c) + 1"
  using unat_gt_0[of c] by (simp add: unat_sub_if' word_less_nat_alt)

lemma u8_countdown_le: "(c :: u8) \<le> D \<Longrightarrow> (if c > 0 then c - 1 else c) \<le> D"
  using unat_gt_0[of c] by (auto simp: word_le_nat_alt unat_sub_if' word_less_nat_alt)

lemma u8_countdown_nonzero: "2 \<le> unat (c :: u8) \<Longrightarrow> 0 \<noteq> (if c > 0 then c - 1 else c)"
  by (auto simp: word_less_nat_alt unat_sub_if' unat_eq_zero dest!: arg_cong[where f = unat])

text \<open>One tick keeps a countdown within its delay and lowers it by at most one.\<close>

lemma tick_turnup_window:
  assumes "valveTurnupCountdownM rs \<le> VALVE_RECLOSE_DELAY_M K"
  shows "valveTurnupCountdownM (snd (tick K v i rs)) \<le> VALVE_RECLOSE_DELAY_M K \<and>
         unat (valveTurnupCountdownM rs) \<le> unat (valveTurnupCountdownM (snd (tick K v i rs))) + 1"
  using assms u8_countdown_step[of "valveTurnupCountdownM rs"]
    u8_countdown_le[OF assms]
  by (simp add: tick_turnup_after tickFilterAndTimers_turnup word_le_nat_alt)

lemma tick_turndown_window:
  assumes "valveTurndownCountdownM rs \<le> VALVE_REOPEN_DELAY_M K"
  shows "valveTurndownCountdownM (snd (tick K v i rs)) \<le> VALVE_REOPEN_DELAY_M K \<and>
         unat (valveTurndownCountdownM rs) \<le> unat (valveTurndownCountdownM (snd (tick K v i rs))) + 1"
  using assms u8_countdown_step[of "valveTurndownCountdownM rs"]
    u8_countdown_le[OF assms]
  by (simp add: tick_turndown_after tickFilterAndTimers_turndown word_le_nat_alt)

lemma tick_protected_from_closing:
  assumes "2 \<le> unat (valveTurnupCountdownM rs)" "inputWithin M i" "M \<le> 100" "v \<le> M"
  shows "v \<le> fst (tick K v i rs)"
proof -
  have "dontTurndown (tickFilterAndTimers K i rs)"
    unfolding dontTurndown_def tickFilterAndTimers_turnup
    using assms(1) by (rule u8_countdown_nonzero)
  then show ?thesis
    unfolding fst_tick using assms(2-4)
    by (intro compute_no_close_while_deferred) (simp_all add: inputWithin_def)
qed

lemma tick_protected_from_opening:
  assumes "2 \<le> unat (valveTurndownCountdownM rs)" "inputWithin M i" "10 \<le> M"
    "\<not> inBakeMode i"
  shows "fst (tick K v i rs) \<le> v"
proof -
  have "dontTurnup (tickFilterAndTimers K i rs)"
    unfolding dontTurnup_def tickFilterAndTimers_turndown
    using assms(1) by (rule u8_countdown_nonzero)
  then show ?thesis
    unfolding fst_tick using assms(2-4)
    by (intro compute_no_open_while_deferred) (simp_all add: inputWithin_def)
qed

lemma tick_at_most_max:
  assumes "inputWithin M i" "10 \<le> M" "v \<le> M"
  shows "fst (tick K v i rs) \<le> M"
  unfolding fst_tick
  using compute_at_most_max[of i v K "tickFilterAndTimers K i rs"] assms
  by (simp add: inputWithin_def)

text \<open>Over a run of ticks a countdown falls by at most one per tick.\<close>

lemma ticks_window_up:
  assumes "\<forall>i \<in> set ins. inputWithin M i" "10 \<le> M" "v \<le> M"
    "valveTurnupCountdownM rs \<le> VALVE_RECLOSE_DELAY_M K"
  shows "fst (ticks K (v, rs) ins) \<le> M \<and>
         valveTurnupCountdownM (snd (ticks K (v, rs) ins)) \<le> VALVE_RECLOSE_DELAY_M K \<and>
         unat (valveTurnupCountdownM rs)
           \<le> unat (valveTurnupCountdownM (snd (ticks K (v, rs) ins))) + length ins"
  using assms
proof (induction ins arbitrary: v rs)
  case Nil
  then show ?case by simp
next
  case (Cons i ins)
  have wf: "inputWithin M i" and rest: "\<forall>j \<in> set ins. inputWithin M j"
    using Cons.prems(1) by simp_all
  have v': "fst (tick K v i rs) \<le> M" using tick_at_most_max[OF wf Cons.prems(2,3)] .
  note up = tick_turnup_window[OF Cons.prems(4), of v i]
  from Cons.IH[OF rest Cons.prems(2) v' conjunct1[OF up]] up
  show ?case by simp
qed

lemma ticks_window_down:
  assumes "\<forall>i \<in> set ins. inputWithin M i" "10 \<le> M" "v \<le> M"
    "valveTurndownCountdownM rs \<le> VALVE_REOPEN_DELAY_M K"
  shows "fst (ticks K (v, rs) ins) \<le> M \<and>
         valveTurndownCountdownM (snd (ticks K (v, rs) ins)) \<le> VALVE_REOPEN_DELAY_M K \<and>
         unat (valveTurndownCountdownM rs)
           \<le> unat (valveTurndownCountdownM (snd (ticks K (v, rs) ins))) + length ins"
  using assms
proof (induction ins arbitrary: v rs)
  case Nil
  then show ?case by simp
next
  case (Cons i ins)
  have wf: "inputWithin M i" and rest: "\<forall>j \<in> set ins. inputWithin M j"
    using Cons.prems(1) by simp_all
  have v': "fst (tick K v i rs) \<le> M" using tick_at_most_max[OF wf Cons.prems(2,3)] .
  note down = tick_turndown_window[OF Cons.prems(4), of v i]
  from Cons.IH[OF rest Cons.prems(2) v' conjunct1[OF down]] down
  show ?case by simp
qed

text \<open>
  Claim C9, as amended. With one maximum \<open>M\<close> between 10 and 100 for all inputs and
  a valve position of at most \<open>M\<close>: a tick that opens the valve loads the turn-up
  countdown with its fixed delay \<open>D\<close>, and none of the next \<open>D - 1\<close> ticks closes
  the valve; a tick that closes the valve loads the turn-down countdown with its fixed
  delay \<open>D'\<close>, and none of the next \<open>D' - 1\<close> ticks whose input is not in BAKE mode
  opens it. So whatever the temperature does, the valve does not reverse direction from
  one tick to the next inside a window; it may go on moving in the same direction.
\<close>

theorem hysteresis_defers_reversal:
  assumes M: "10 \<le> M" "M \<le> 100" and v: "v \<le> M"
    and i0: "inputWithin M i0" and ins: "\<forall>j \<in> set ins. inputWithin M j"
    and i: "inputWithin M i"
  shows
    "(v < fst (tick K v i0 rs) \<longrightarrow>
        valveTurnupCountdownM (snd (tick K v i0 rs)) = VALVE_RECLOSE_DELAY_M K \<and>
        (length ins + 2 \<le> unat (VALVE_RECLOSE_DELAY_M K) \<longrightarrow>
           fst (ticks K (tick K v i0 rs) ins)
             \<le> fst (tick K (fst (ticks K (tick K v i0 rs) ins)) i
                       (snd (ticks K (tick K v i0 rs) ins))))) \<and>
     (fst (tick K v i0 rs) < v \<longrightarrow>
        valveTurndownCountdownM (snd (tick K v i0 rs)) = VALVE_REOPEN_DELAY_M K \<and>
        (length ins + 2 \<le> unat (VALVE_REOPEN_DELAY_M K) \<and> \<not> inBakeMode i \<longrightarrow>
           fst (tick K (fst (ticks K (tick K v i0 rs) ins)) i
                  (snd (ticks K (tick K v i0 rs) ins)))
             \<le> fst (ticks K (tick K v i0 rs) ins)))"
proof -
  obtain v1 rs1 where p: "tick K v i0 rs = (v1, rs1)" by (cases "tick K v i0 rs")
  have v1: "v1 \<le> M" using tick_at_most_max[OF i0 M(1) v, of K rs] p by simp
  let ?vk = "fst (ticks K (v1, rs1) ins)" and ?rsk = "snd (ticks K (v1, rs1) ins)"
  have up: "valveTurnupCountdownM rs1 = VALVE_RECLOSE_DELAY_M K \<and>
      (length ins + 2 \<le> unat (VALVE_RECLOSE_DELAY_M K) \<longrightarrow> ?vk \<le> fst (tick K ?vk i ?rsk))"
    if moved: "v < v1"
  proof
    show c: "valveTurnupCountdownM rs1 = VALVE_RECLOSE_DELAY_M K"
      using tick_turnup_after[of K v i0 rs] p moved by simp
    show "length ins + 2 \<le> unat (VALVE_RECLOSE_DELAY_M K) \<longrightarrow> ?vk \<le> fst (tick K ?vk i ?rsk)"
    proof
      assume len: "length ins + 2 \<le> unat (VALVE_RECLOSE_DELAY_M K)"
      have w: "?vk \<le> M \<and>
          valveTurnupCountdownM ?rsk \<le> VALVE_RECLOSE_DELAY_M K \<and>
          unat (valveTurnupCountdownM rs1) \<le> unat (valveTurnupCountdownM ?rsk) + length ins"
        by (rule ticks_window_up[OF ins M(1) v1]) (simp add: c)
      with len c have "2 \<le> unat (valveTurnupCountdownM ?rsk)" by simp
      from tick_protected_from_closing[OF this i M(2)] w
      show "?vk \<le> fst (tick K ?vk i ?rsk)" by simp
    qed
  qed
  have down: "valveTurndownCountdownM rs1 = VALVE_REOPEN_DELAY_M K \<and>
      (length ins + 2 \<le> unat (VALVE_REOPEN_DELAY_M K) \<and> \<not> inBakeMode i \<longrightarrow>
         fst (tick K ?vk i ?rsk) \<le> ?vk)"
    if moved: "v1 < v"
  proof
    show c: "valveTurndownCountdownM rs1 = VALVE_REOPEN_DELAY_M K"
      using tick_turndown_after[of K v i0 rs] p moved by simp
    show "length ins + 2 \<le> unat (VALVE_REOPEN_DELAY_M K) \<and> \<not> inBakeMode i \<longrightarrow>
         fst (tick K ?vk i ?rsk) \<le> ?vk"
    proof
      assume a: "length ins + 2 \<le> unat (VALVE_REOPEN_DELAY_M K) \<and> \<not> inBakeMode i"
      have w: "?vk \<le> M \<and>
          valveTurndownCountdownM ?rsk \<le> VALVE_REOPEN_DELAY_M K \<and>
          unat (valveTurndownCountdownM rs1) \<le> unat (valveTurndownCountdownM ?rsk) + length ins"
        by (rule ticks_window_down[OF ins M(1) v1]) (simp add: c)
      with a c have "2 \<le> unat (valveTurndownCountdownM ?rsk)" by simp
      from tick_protected_from_opening[OF this i M(1)] a
      show "fst (tick K ?vk i ?rsk) \<le> ?vk" by simp
    qed
  qed
  from up down show ?thesis unfolding p by simp
qed

theorem hysteresis_defers_reversal_witness:
  "(10 :: u8) \<le> 100 \<and> (100 :: u8) \<le> 100 \<and> (60 :: u8) \<le> 100 \<and> (0 :: u8) \<le> 100 \<and>
   inputWithin 100 justOverInput \<and> inputWithin 100 justUnderInput \<and>
   inputWithin 100 targetRaisedInput \<and> inputWithin 100 coldRoomInput \<and>
   fst (tick valveConsts 60 justOverInput freshState) < 60 \<and>
   valveTurndownCountdownM (snd (tick valveConsts 60 justOverInput freshState))
     = VALVE_REOPEN_DELAY_M valveConsts \<and>
   length [justUnderInput] + 2 \<le> unat (VALVE_REOPEN_DELAY_M valveConsts) \<and>
   \<not> inBakeMode targetRaisedInput \<and>
   fst (tick valveConsts
          (fst (ticks valveConsts (tick valveConsts 60 justOverInput freshState) [justUnderInput]))
          targetRaisedInput
          (snd (ticks valveConsts (tick valveConsts 60 justOverInput freshState) [justUnderInput])))
     \<le> fst (ticks valveConsts (tick valveConsts 60 justOverInput freshState) [justUnderInput]) \<and>
   0 < fst (tick valveConsts 0 coldRoomInput freshState) \<and>
   valveTurnupCountdownM (snd (tick valveConsts 0 coldRoomInput freshState))
     = VALVE_RECLOSE_DELAY_M valveConsts \<and>
   length [coldRoomInput] + 2 \<le> unat (VALVE_RECLOSE_DELAY_M valveConsts) \<and>
   fst (ticks valveConsts (tick valveConsts 0 coldRoomInput freshState) [coldRoomInput])
     \<le> fst (tick valveConsts
               (fst (ticks valveConsts (tick valveConsts 0 coldRoomInput freshState) [coldRoomInput]))
               justOverInput
               (snd (ticks valveConsts (tick valveConsts 0 coldRoomInput freshState) [coldRoomInput])))"
proof -
  have m: "(10 :: u8) \<le> 100" "(100 :: u8) \<le> 100" "(60 :: u8) \<le> 100" "(0 :: u8) \<le> 100"
    by simp_all
  have w: "inputWithin 100 justOverInput" "inputWithin 100 justUnderInput"
    "inputWithin 100 targetRaisedInput" "inputWithin 100 coldRoomInput"
    by (simp_all add: inputWithin_def justOverInput_def justUnderInput_def
        targetRaisedInput_def coldRoomInput_def)
  have ws: "\<forall>j \<in> set [justUnderInput]. inputWithin 100 j"
    "\<forall>j \<in> set [coldRoomInput]. inputWithin 100 j"
    using w by simp_all
  have closed: "fst (tick valveConsts 60 justOverInput freshState) < 60"
    by code_simp
  have opened: "0 < fst (tick valveConsts 0 coldRoomInput freshState)"
    by code_simp
  have len: "length [justUnderInput] + 2 \<le> unat (VALVE_REOPEN_DELAY_M valveConsts)"
    "length [coldRoomInput] + 2 \<le> unat (VALVE_RECLOSE_DELAY_M valveConsts)"
    by (simp_all add: valveConsts_def)
  have nb: "\<not> inBakeMode targetRaisedInput"
    by (simp add: targetRaisedInput_def justOverInput_def)
  note down = hysteresis_defers_reversal[OF m(1,2,3) w(1) ws(1) w(3),
      of valveConsts freshState, THEN conjunct2, rule_format, OF closed]
  note up = hysteresis_defers_reversal[OF m(1,2,4) w(4) ws(2) w(1),
      of valveConsts freshState, THEN conjunct1, rule_format, OF opened]
  from down len(1) nb up len(2) m w closed opened show ?thesis by blast
qed

text \<open>
  Claim C9 as stated fails. A closing tick loads the turn-down countdown with 10, and on
  the very next tick a BAKE input opens the valve to its maximum. And with a temperature
  that goes back and forth by one 16th of a degree across the top of the proportional
  band, the valve closes by 10 percent on the first and again on the third tick: twice
  inside one window of 10 ticks.
\<close>

theorem hysteresis_counterexample:
  "fst (tick valveConsts 60 justOverInput freshState) = 50 \<and>
   valveTurndownCountdownM (snd (tick valveConsts 60 justOverInput freshState)) = 10 \<and>
   fst (tick valveConsts 50 bakeStartedInput (snd (tick valveConsts 60 justOverInput freshState)))
     = 100 \<and>
   refTempC16 justOverInput - refTempC16 justUnderInput = 1 \<and>
   fst (ticks valveConsts (60, freshState) [justOverInput]) = 50 \<and>
   fst (ticks valveConsts (60, freshState) [justOverInput, justUnderInput]) = 50 \<and>
   fst (ticks valveConsts (60, freshState) [justOverInput, justUnderInput, justOverInput]) = 40"
  by code_simp

end
